theory Spec2Isabelle
  imports Main "HOL-Library.Word"
begin

unbundle bit_operations_syntax

section \<open>The queue maintainer of ashuffle (src/ashuffle.cc, src/mpd.h)\<close>

text \<open>
  The development embeds \<^verbatim>\<open>TryFirst\<close>, \<^verbatim>\<open>TryEnqueue\<close>, \<^verbatim>\<open>Reloader\<close>,
  \<^verbatim>\<open>PrintChainLength\<close> and \<^verbatim>\<open>Loop\<close> of \<^verbatim>\<open>ashuffle.cc\<close> together with the value
  types of \<^verbatim>\<open>mpd.h\<close> they read.

  Integers. \<^verbatim>\<open>unsigned\<close> and \<^verbatim>\<open>int\<close> are 32 bits wide. Values that are stored or
  converted (\<^verbatim>\<open>QueueLength\<close>, \<^verbatim>\<open>SongPosition\<close>, \<^verbatim>\<open>queue_buffer\<close>, the local
  \<^verbatim>\<open>queue_songs_remaining\<close>, the bit set of idle events) are 32-bit words: unsigned
  arithmetic wraps, \<open>unat\<close>/\<open>uint\<close> read a word as \<^verbatim>\<open>unsigned\<close>, \<open>sint\<close> reads it as
  \<^verbatim>\<open>int\<close>, and \<^verbatim>\<open>static_cast<int>\<close> of an \<^verbatim>\<open>unsigned\<close> is \<open>sint\<close>. In
  \<^verbatim>\<open>QueueLength() - (*SongPosition() + 1)\<close> the \<^verbatim>\<open>int\<close> sum is converted to
  \<^verbatim>\<open>unsigned\<close> before the subtraction, which is subtraction of words. The local
  \<^verbatim>\<open>int needed\<close> is an \<open>int\<close> that \<open>int32\<close> brings back into 32 bits, in two's
  complement, after the subtraction and after the increment that set it up: where the
  exact result fits 32 bits this is the value C++ defines, and where it does not (signed
  overflow, undefined in C++) it is the value the compiled code computes. A vector of
  identifiers holds fewer than \<open>2^31\<close> strings, so \<^verbatim>\<open>static_cast<int>(picked.size())\<close>
  is the length of the list, and inside the loop the positive \<^verbatim>\<open>needed\<close> minus a
  length stays within 32 bits.
\<close>

type_synonym unsigned = "32 word"
type_synonym cint = "32 word"
type_synonym duration = int
type_synonym istream = nat

subsection \<open>mpd.h: Status and IdleEventSet\<close>

record Status =
  QueueLength :: unsigned
  Single :: bool
  SongPosition :: "cint option"
  IsPlaying :: bool

text \<open>
  The members of libmpdclient's \<^verbatim>\<open>enum mpd_idle\<close> (\<^verbatim>\<open>mpd/idle.h\<close>) that the loop
  subscribes to. \<^verbatim>\<open>Loop\<close> asserts statically that the queue and the playlist signal
  are the same constant.
\<close>

definition MPD_IDLE_DATABASE :: cint where "MPD_IDLE_DATABASE = 0x1"
definition MPD_IDLE_QUEUE :: cint where "MPD_IDLE_QUEUE = 0x4"
definition MPD_IDLE_PLAYER :: cint where "MPD_IDLE_PLAYER = 0x8"

record IdleEventSet =
  events :: cint

definition IdleEventSet_Add :: "cint \<Rightarrow> IdleEventSet \<Rightarrow> IdleEventSet" where
  "IdleEventSet_Add event s = s\<lparr>events := events s OR event\<rparr>"

definition IdleEventSet_of :: "cint list \<Rightarrow> IdleEventSet" where
  "IdleEventSet_of es = fold IdleEventSet_Add es \<lparr>events = 0\<rparr>"

definition Has :: "IdleEventSet \<Rightarrow> cint \<Rightarrow> bool" where
  "Has s event = (if events s AND event = 0 then False else True)"

subsection \<open>Options\<close>

record tweak_options =
  play_on_startup :: bool
  exit_on_db_update :: bool
  suspend_timeout :: duration

record Options =
  queue_buffer :: unsigned
  file_in :: "istream option"
  tweak :: tweak_options

text \<open>
  The test delegate: \<^verbatim>\<open>until_f\<close> is a null pointer (\<open>None\<close>) in production; a test
  passes a closure, and \<open>f n\<close> is what its \<open>n\<close>-th call returns. \<^verbatim>\<open>sleep_f\<close>
  sleeps; the model records the call.
\<close>

record TestDelegate =
  until_f :: "(nat \<Rightarrow> bool) option"

subsection \<open>The collaborators: the shuffle chain, the loader, the player\<close>

text \<open>
  \<^verbatim>\<open>ShuffleChain\<close> (\<^verbatim>\<open>shuffle.h\<close>) and \<^verbatim>\<open>Loader\<close> (\<^verbatim>\<open>load.h\<close>) are used by
  \<^verbatim>\<open>ashuffle.cc\<close> through \<^verbatim>\<open>Pick\<close>, \<^verbatim>\<open>Clear\<close>, \<^verbatim>\<open>Len\<close>, \<^verbatim>\<open>LenURIs\<close> and
  \<^verbatim>\<open>Load\<close> only. They are parameters: \<open>'c\<close> is the state of a chain, and every
  theorem holds for every choice of the operations (in particular for every outcome
  of the random choice inside \<^verbatim>\<open>Pick\<close>). \<^verbatim>\<open>Pick\<close> returns a vector of identifiers
  and leaves a new state of the chain, as \<^verbatim>\<open>ashuffle.cc\<close> uses it; what a chain
  without groups does is not part of \<^verbatim>\<open>ashuffle.cc\<close>.
\<close>

record 'c collaborators =
  Pick :: "'c \<Rightarrow> string list \<times> 'c"
  Clear :: "'c \<Rightarrow> 'c"
  Load :: "'c \<Rightarrow> 'c"
  Len :: "'c \<Rightarrow> nat"
  LenURIs :: "'c \<Rightarrow> nat"

text \<open>What \<^verbatim>\<open>PrintChainLength\<close> and the exit path write to standard output.\<close>

datatype message =
    Song_pool_is_empty
  | Picking_from_groups nat nat
  | Picking_random_songs_out_of_a_pool_of nat
  | Database_updated_exiting

text \<open>
  Every call that leaves the controller is recorded, in order. The player is outside
  the program: \<open>player w n\<close> is the status that the \<open>n\<close>-th call of
  \<^verbatim>\<open>CurrentStatus\<close> returns and \<open>idles w n\<close> the event set that the \<open>n\<close>-th call of
  \<^verbatim>\<open>Idle\<close> returns, so that the status may change between any two reads, whatever
  the commands sent in between. The counters \<open>n_status\<close>, \<open>n_idle\<close> and \<open>n_until\<close>
  count the calls of \<^verbatim>\<open>CurrentStatus\<close>, \<^verbatim>\<open>Idle\<close> and \<^verbatim>\<open>until_f\<close> so far.
\<close>

datatype effect =
    DidCurrentStatus
  | DidPick
  | DidAdd string
  | DidPlayAt unsigned
  | DidPause
  | DidIdle IdleEventSet
  | DidSleep duration
  | DidClear
  | DidLoad
  | DidPrint message

record 'c world =
  songs :: 'c
  player :: "nat \<Rightarrow> Status"
  idles :: "nat \<Rightarrow> IdleEventSet"
  n_status :: nat
  n_idle :: nat
  n_until :: nat
  trace :: "effect list"

definition did :: "effect \<Rightarrow> 'c world \<Rightarrow> 'c world" where
  "did e w = w\<lparr>trace := trace w @ [e]\<rparr>"

definition mpd_CurrentStatus :: "'c world \<Rightarrow> Status \<times> 'c world" where
  "mpd_CurrentStatus w =
     (player w (n_status w), did DidCurrentStatus (w\<lparr>n_status := Suc (n_status w)\<rparr>))"

definition mpd_Idle :: "IdleEventSet \<Rightarrow> 'c world \<Rightarrow> IdleEventSet \<times> 'c world" where
  "mpd_Idle s w = (idles w (n_idle w), did (DidIdle s) (w\<lparr>n_idle := Suc (n_idle w)\<rparr>))"

definition mpd_Add :: "string \<Rightarrow> 'c world \<Rightarrow> 'c world" where
  "mpd_Add uri w = did (DidAdd uri) w"

text \<open>\<^verbatim>\<open>MPD::Add\<close> on a vector invokes \<^verbatim>\<open>Add\<close> for each element, in order.\<close>

definition mpd_Add_uris :: "string list \<Rightarrow> 'c world \<Rightarrow> 'c world" where
  "mpd_Add_uris uris w = fold mpd_Add uris w"

definition mpd_PlayAt :: "unsigned \<Rightarrow> 'c world \<Rightarrow> 'c world" where
  "mpd_PlayAt position w = did (DidPlayAt position) w"

definition mpd_Pause :: "'c world \<Rightarrow> 'c world" where
  "mpd_Pause w = did DidPause w"

definition sleep_f :: "duration \<Rightarrow> 'c world \<Rightarrow> 'c world" where
  "sleep_f d w = did (DidSleep d) w"

definition songs_Pick :: "'c collaborators \<Rightarrow> 'c world \<Rightarrow> string list \<times> 'c world" where
  "songs_Pick X w =
     (case Pick X (songs w) of (picked, c) \<Rightarrow> (picked, did DidPick (w\<lparr>songs := c\<rparr>)))"

definition songs_Clear :: "'c collaborators \<Rightarrow> 'c world \<Rightarrow> 'c world" where
  "songs_Clear X w = did DidClear (w\<lparr>songs := Clear X (songs w)\<rparr>)"

definition reloader_Load :: "'c collaborators \<Rightarrow> 'c world \<Rightarrow> 'c world" where
  "reloader_Load X w = did DidLoad (w\<lparr>songs := Load X (songs w)\<rparr>)"

subsection \<open>ashuffle.cc\<close>

definition TryFirst :: "'c collaborators \<Rightarrow> 'c world \<Rightarrow> 'c world" where
  "TryFirst X w =
     (case mpd_CurrentStatus w of (status, w1) \<Rightarrow>
        if IsPlaying status then w1
        else (case songs_Pick X w1 of (picked, w2) \<Rightarrow>
                mpd_PlayAt (QueueLength status) (mpd_Add_uris picked w2)))"

text \<open>The locals of \<^verbatim>\<open>TryEnqueue\<close>, as functions of the status it has read.\<close>

definition past_last :: "Status \<Rightarrow> bool" where
  "past_last status = (case SongPosition status of None \<Rightarrow> True | Some pos \<Rightarrow> False)"

definition queue_empty :: "Status \<Rightarrow> bool" where
  "queue_empty status = (QueueLength status = 0)"

definition queue_songs_remaining :: "Status \<Rightarrow> unsigned" where
  "queue_songs_remaining status =
     (case SongPosition status of
        None \<Rightarrow> 0
      | Some pos \<Rightarrow> QueueLength status - (pos + 1))"

definition should_add :: "Options \<Rightarrow> Status \<Rightarrow> bool" where
  "should_add options status =
     (if past_last status then True
      else if queue_songs_remaining status < queue_buffer options then True
      else if queue_empty status then True
      else False)"

definition int32 :: "int \<Rightarrow> int" where
  "int32 x = signed_take_bit 31 x"

definition needed_init :: "Options \<Rightarrow> Status \<Rightarrow> int" where
  "needed_init options status =
     (let needed = int32 (sint (queue_buffer options) - sint (queue_songs_remaining status))
      in if past_last status \<or> queue_empty status then int32 (needed + 1) else needed)"

text \<open>
  The loop \<^verbatim>\<open>while (needed > 0)\<close>. Nothing bounds its iterations when \<^verbatim>\<open>Pick\<close>
  returns empty vectors, so it is a partial function: \<open>None\<close> is a run that never
  leaves the loop.
\<close>

partial_function (option) enqueue_loop ::
  "'c collaborators \<Rightarrow> int \<Rightarrow> 'c world \<Rightarrow> 'c world option" where
  "enqueue_loop X needed w =
     (if needed > 0 then
        (case songs_Pick X w of (picked, w1) \<Rightarrow>
           enqueue_loop X (needed - int (length picked)) (mpd_Add_uris picked w1))
      else Some w)"

definition restart_player :: "Status \<Rightarrow> 'c world \<Rightarrow> 'c world" where
  "restart_player status w =
     (let w1 = mpd_PlayAt (QueueLength status) w
      in if Single status then mpd_Pause w1 else w1)"

definition TryEnqueue :: "'c collaborators \<Rightarrow> Options \<Rightarrow> 'c world \<Rightarrow> 'c world option" where
  "TryEnqueue X options w =
     (case mpd_CurrentStatus w of (status, w1) \<Rightarrow>
        Option.bind
          (if should_add options status then
             (if queue_buffer options \<noteq> 0
              then enqueue_loop X (needed_init options status) w1
              else (case songs_Pick X w1 of (picked, w2) \<Rightarrow> Some (mpd_Add_uris picked w2)))
           else Some w1)
          (\<lambda>w3. Some (if should_add options status \<and> (past_last status \<or> queue_empty status)
                      then restart_player status w3 else w3)))"

datatype Loader = MPDLoader

definition Reloader :: "Options \<Rightarrow> Loader option" where
  "Reloader options = (case file_in options of Some f \<Rightarrow> None | None \<Rightarrow> Some MPDLoader)"

definition PrintChainLength :: "'c collaborators \<Rightarrow> 'c world \<Rightarrow> 'c world" where
  "PrintChainLength X w =
     (if Len X (songs w) = 0 then did (DidPrint Song_pool_is_empty) w
      else if Len X (songs w) \<noteq> LenURIs X (songs w)
      then did (DidPrint (Picking_from_groups (Len X (songs w)) (LenURIs X (songs w)))) w
      else did (DidPrint (Picking_random_songs_out_of_a_pool_of (Len X (songs w)))) w)"

text \<open>
  One pass through the body of \<^verbatim>\<open>while (test_d.until_f == nullptr || test_d.until_f())\<close>.
  \<open>Exited\<close> is \<^verbatim>\<open>std::exit(0)\<close>; \<open>Looping active w\<close> is the end of the body (or
  \<^verbatim>\<open>continue\<close>) with the flag \<^verbatim>\<open>active\<close>.
\<close>

datatype 'c flow = Looping bool "'c world" | Exited "'c world"

definition idle_set :: IdleEventSet where
  "idle_set = IdleEventSet_of [MPD_IDLE_DATABASE, MPD_IDLE_QUEUE, MPD_IDLE_PLAYER]"

definition suspend_check :: "Options \<Rightarrow> bool \<Rightarrow> 'c world \<Rightarrow> bool \<times> 'c world" where
  "suspend_check options active w =
     (if suspend_timeout (tweak options) \<noteq> 0 then
        (case mpd_CurrentStatus w of (status, w1) \<Rightarrow>
           if QueueLength status = 0 then
             (case mpd_CurrentStatus (sleep_f (suspend_timeout (tweak options)) w1) of
                (status2, w2) \<Rightarrow> (QueueLength status2 = 0, w2))
           else (active, w1))
      else (active, w))"

text \<open>
  The branch of the body taken for \<^verbatim>\<open>MPD_IDLE_QUEUE\<close> or \<^verbatim>\<open>MPD_IDLE_PLAYER\<close>:
  the suspend check, then \<^verbatim>\<open>continue\<close> when inactive, \<^verbatim>\<open>TryEnqueue\<close> otherwise.
\<close>

definition on_queue_or_player ::
  "'c collaborators \<Rightarrow> Options \<Rightarrow> bool \<Rightarrow> 'c world \<Rightarrow> 'c flow option" where
  "on_queue_or_player X options active w =
     (case suspend_check options active w of (active2, w2) \<Rightarrow>
        if \<not> active2 then Some (Looping active2 w2)
        else map_option (Looping active2) (TryEnqueue X options w2))"

definition Loop_body ::
  "'c collaborators \<Rightarrow> Options \<Rightarrow> bool \<Rightarrow> 'c world \<Rightarrow> 'c flow option" where
  "Loop_body X options active w =
     (case mpd_Idle idle_set w of (occurred, w1) \<Rightarrow>
        if Has occurred MPD_IDLE_DATABASE \<and> exit_on_db_update (tweak options)
        then Some (Exited (did (DidPrint Database_updated_exiting) w1))
        else if Has occurred MPD_IDLE_DATABASE \<and> file_in options = None
        then (case Reloader options of
                Some reloader \<Rightarrow>
                  Some (Looping active (PrintChainLength X (reloader_Load X (songs_Clear X w1))))
              | None \<Rightarrow> Some (Looping active w1))
        else if Has occurred MPD_IDLE_QUEUE \<or> Has occurred MPD_IDLE_PLAYER
        then on_queue_or_player X options active w1
        else Some (Looping active w1))"

definition until_check :: "TestDelegate \<Rightarrow> 'c world \<Rightarrow> bool \<times> 'c world" where
  "until_check test_d w =
     (case until_f test_d of
        None \<Rightarrow> (True, w)
      | Some f \<Rightarrow> (f (n_until w), w\<lparr>n_until := Suc (n_until w)\<rparr>))"

partial_function (option) Loop_while ::
  "'c collaborators \<Rightarrow> Options \<Rightarrow> TestDelegate \<Rightarrow> bool \<Rightarrow> 'c world \<Rightarrow> 'c flow option" where
  "Loop_while X options test_d active w =
     (case until_check test_d w of (go, w1) \<Rightarrow>
        if go then
          Option.bind (Loop_body X options active w1)
            (\<lambda>r. case r of
                    Exited w2 \<Rightarrow> Some (Exited w2)
                  | Looping active2 w2 \<Rightarrow> Loop_while X options test_d active2 w2)
        else Some (Looping active w1))"

definition Loop ::
  "'c collaborators \<Rightarrow> Options \<Rightarrow> TestDelegate \<Rightarrow> 'c world \<Rightarrow> 'c flow option" where
  "Loop X options test_d w =
     Option.bind
       (if play_on_startup (tweak options) then TryEnqueue X options (TryFirst X w) else Some w)
       (\<lambda>w1. Loop_while X options test_d True w1)"

subsection \<open>Vocabulary of the statements\<close>

fun flow_world :: "'c flow \<Rightarrow> 'c world" where
  "flow_world (Looping active w) = w"
| "flow_world (Exited w) = w"

text \<open>The groups that the next \<open>k\<close> calls of \<^verbatim>\<open>Pick\<close> return, and the chain after them.\<close>

fun picked_groups :: "'c collaborators \<Rightarrow> 'c \<Rightarrow> nat \<Rightarrow> string list list" where
  "picked_groups X c 0 = []"
| "picked_groups X c (Suc k) = fst (Pick X c) # picked_groups X (snd (Pick X c)) k"

fun after_picks :: "'c collaborators \<Rightarrow> 'c \<Rightarrow> nat \<Rightarrow> 'c" where
  "after_picks X c 0 = c"
| "after_picks X c (Suc k) = after_picks X (snd (Pick X c)) k"

definition nth_pick :: "'c collaborators \<Rightarrow> 'c \<Rightarrow> nat \<Rightarrow> string list" where
  "nth_pick X c k = fst (Pick X (after_picks X c k))"

text \<open>What picking and appending a sequence of groups leaves in the trace.\<close>

definition pick_effects :: "string list list \<Rightarrow> effect list" where
  "pick_effects gs = concat (map (\<lambda>g. DidPick # map DidAdd g) gs)"

definition appended :: "string list list \<Rightarrow> int" where
  "appended gs = int (length (concat gs))"

text \<open>What restarting the player leaves in the trace.\<close>

definition restart_effects :: "Status \<Rightarrow> effect list" where
  "restart_effects status =
     DidPlayAt (QueueLength status) # (if Single status then [DidPause] else [])"

text \<open>The line that \<^verbatim>\<open>PrintChainLength\<close> writes for a chain.\<close>

definition chain_length_message :: "'c collaborators \<Rightarrow> 'c \<Rightarrow> message" where
  "chain_length_message X c =
     (if Len X c = 0 then Song_pool_is_empty
      else if Len X c \<noteq> LenURIs X c then Picking_from_groups (Len X c) (LenURIs X c)
      else Picking_random_songs_out_of_a_pool_of (Len X c))"

text \<open>
  The world after an enqueue decision that picked \<open>k\<close> groups: one status read, the
  groups picked and appended, and the restart of the player when it is called for.
\<close>

definition enqueue_outcome ::
  "'c collaborators \<Rightarrow> Options \<Rightarrow> 'c world \<Rightarrow> nat \<Rightarrow> 'c world" where
  "enqueue_outcome X options w k =
     w\<lparr>songs := after_picks X (songs w) k,
       n_status := Suc (n_status w),
       trace := trace w @ DidCurrentStatus # pick_effects (picked_groups X (songs w) k)
                @ (if should_add options (player w (n_status w))
                      \<and> (past_last (player w (n_status w)) \<or> queue_empty (player w (n_status w)))
                   then restart_effects (player w (n_status w)) else [])\<rparr>"

text \<open>
  The number of queued songs strictly after the current position, counted over the
  positions \<open>0, \<dots>, QueueLength - 1\<close> of the queue; \<open>0\<close> without a current song.
\<close>

definition songs_after_current :: "Status \<Rightarrow> nat" where
  "songs_after_current status =
     (case SongPosition status of
        None \<Rightarrow> 0
      | Some pos \<Rightarrow> length (filter (\<lambda>i. sint pos < int i) [0..<unat (QueueLength status)]))"

text \<open>
  The world at three points of a pass through the loop body: after \<^verbatim>\<open>Idle\<close> has
  returned, after the suspend check has read the status, and after it has slept and
  read the status again.
\<close>

definition idled :: "'c world \<Rightarrow> 'c world" where
  "idled w = w\<lparr>n_idle := Suc (n_idle w), trace := trace w @ [DidIdle idle_set]\<rparr>"

definition probed :: "'c world \<Rightarrow> 'c world" where
  "probed w =
     w\<lparr>n_idle := Suc (n_idle w), n_status := Suc (n_status w),
       trace := trace w @ [DidIdle idle_set, DidCurrentStatus]\<rparr>"

definition probed_twice :: "Options \<Rightarrow> 'c world \<Rightarrow> 'c world" where
  "probed_twice options w =
     w\<lparr>n_idle := Suc (n_idle w), n_status := Suc (Suc (n_status w)),
       trace := trace w @ [DidIdle idle_set, DidCurrentStatus,
                           DidSleep (suspend_timeout (tweak options)), DidCurrentStatus]\<rparr>"

fun still_active :: "'c flow \<Rightarrow> bool" where
  "still_active (Looping active w) = active"
| "still_active (Exited w) = False"

text \<open>
  Whether a pass with the event set \<open>occurred\<close> gets to the queue or player event: the
  database event, if any, has led neither to the exit nor to a reload.
\<close>

definition queue_event_handled :: "Options \<Rightarrow> IdleEventSet \<Rightarrow> bool" where
  "queue_event_handled options occurred =
     (if Has occurred MPD_IDLE_DATABASE \<and> exit_on_db_update (tweak options) then False
      else if Has occurred MPD_IDLE_DATABASE \<and> file_in options = None then False
      else Has occurred MPD_IDLE_QUEUE \<or> Has occurred MPD_IDLE_PLAYER)"

text \<open>The effects of the suspend check and of the enqueue decision.\<close>

fun queue_handling :: "effect \<Rightarrow> bool" where
  "queue_handling DidCurrentStatus = True"
| "queue_handling DidPick = True"
| "queue_handling (DidAdd uri) = True"
| "queue_handling (DidPlayAt position) = True"
| "queue_handling DidPause = True"
| "queue_handling (DidSleep d) = True"
| "queue_handling (DidIdle s) = False"
| "queue_handling DidClear = False"
| "queue_handling DidLoad = False"
| "queue_handling (DidPrint m) = False"

subsection \<open>A concrete chain and player, for evaluation\<close>

text \<open>
  A chain that hands out the groups of a fixed catalog in turn: its state is the list of
  registered groups and the number of picks so far.
\<close>

definition round_robin :: "string list list \<Rightarrow> (string list list \<times> nat) collaborators" where
  "round_robin catalog =
     \<lparr>Pick = (\<lambda>(gs, i). (if gs = [] then [] else gs ! (i mod length gs), (gs, Suc i))),
      Clear = (\<lambda>(gs, i). ([], 0)),
      Load = (\<lambda>(gs, i). (catalog, 0)),
      Len = (\<lambda>(gs, i). length gs),
      LenURIs = (\<lambda>(gs, i). length (concat gs))\<rparr>"

definition fresh_world ::
  "'c \<Rightarrow> (nat \<Rightarrow> Status) \<Rightarrow> (nat \<Rightarrow> IdleEventSet) \<Rightarrow> 'c world" where
  "fresh_world c p i =
     \<lparr>songs = c, player = p, idles = i, n_status = 0, n_idle = 0, n_until = 0, trace = []\<rparr>"

definition stopped_on_empty_queue :: Status where
  "stopped_on_empty_queue =
     \<lparr>QueueLength = 0, Single = False, SongPosition = None, IsPlaying = False\<rparr>"

definition playing_at :: "cint \<Rightarrow> unsigned \<Rightarrow> Status" where
  "playing_at pos len =
     \<lparr>QueueLength = len, Single = False, SongPosition = Some pos, IsPlaying = True\<rparr>"

text \<open>A player whose every status is the same, and one whose status changes after \<open>k\<close> reads.\<close>

definition player_always :: "Status \<Rightarrow> nat \<Rightarrow> Status" where
  "player_always status n = status"

definition player_changing :: "nat \<Rightarrow> Status \<Rightarrow> Status \<Rightarrow> nat \<Rightarrow> Status" where
  "player_changing k before after n = (if n < k then before else after)"

definition idle_returns :: "cint \<Rightarrow> nat \<Rightarrow> IdleEventSet" where
  "idle_returns e n = \<lparr>events = e\<rparr>"

text \<open>A test delegate that lets the loop run \<open>k\<close> times.\<close>

definition run_times :: "nat \<Rightarrow> TestDelegate" where
  "run_times k = \<lparr>until_f = Some (\<lambda>n. n < k)\<rparr>"

definition production :: TestDelegate where
  "production = \<lparr>until_f = None\<rparr>"

definition default_options :: Options where
  "default_options =
     \<lparr>queue_buffer = 0, file_in = None,
      tweak = \<lparr>play_on_startup = True, exit_on_db_update = False, suspend_timeout = 0\<rparr>\<rparr>"

section \<open>Properties\<close>

subsection \<open>The calls on the player and on the chain\<close>

lemma mpd_Add_uris_eq: "mpd_Add_uris uris w = w\<lparr>trace := trace w @ map DidAdd uris\<rparr>"
  unfolding mpd_Add_uris_def
  by (induction uris arbitrary: w) (simp_all add: mpd_Add_def did_def)

lemma songs_Pick_eq:
  "songs_Pick X w =
     (fst (Pick X (songs w)),
      w\<lparr>songs := snd (Pick X (songs w)), trace := trace w @ [DidPick]\<rparr>)"
  by (simp add: songs_Pick_def did_def split_beta)

lemma mpd_CurrentStatus_eq:
  "mpd_CurrentStatus w =
     (player w (n_status w),
      w\<lparr>n_status := Suc (n_status w), trace := trace w @ [DidCurrentStatus]\<rparr>)"
  by (simp add: mpd_CurrentStatus_def did_def)

lemma mpd_Idle_eq:
  "mpd_Idle s w =
     (idles w (n_idle w), w\<lparr>n_idle := Suc (n_idle w), trace := trace w @ [DidIdle s]\<rparr>)"
  by (simp add: mpd_Idle_def did_def)

lemma restart_player_eq:
  "restart_player status w = w\<lparr>trace := trace w @ restart_effects status\<rparr>"
  by (simp add: restart_player_def restart_effects_def mpd_PlayAt_def mpd_Pause_def did_def)

lemma pick_effects_simps:
  "pick_effects [] = []"
  "pick_effects (g # gs) = DidPick # map DidAdd g @ pick_effects gs"
  by (simp_all add: pick_effects_def)

lemma appended_simps:
  "appended [] = 0"
  "appended (g # gs) = int (length g) + appended gs"
  by (simp_all add: appended_def)

lemma pick_effects_only_pick_and_add:
  "e \<in> set (pick_effects gs) \<Longrightarrow> e = DidPick \<or> (\<exists>uri. e = DidAdd uri)"
  by (induction gs) (auto simp: pick_effects_simps)

lemma after_picks_preserves:
  assumes "\<And>c. f (snd (Pick X c)) = f c"
  shows "f (after_picks X c k) = f c"
  by (induction k arbitrary: c) (simp_all add: assms)

subsection \<open>The loop of the enqueue decision\<close>

lemma enqueue_loop_done: "needed \<le> 0 \<Longrightarrow> enqueue_loop X needed w = Some w"
  by (subst enqueue_loop.simps) simp

lemma enqueue_loop_step:
  "0 < needed \<Longrightarrow>
   enqueue_loop X needed w =
     enqueue_loop X (needed - int (length (fst (Pick X (songs w)))))
       (w\<lparr>songs := snd (Pick X (songs w)),
          trace := trace w @ DidPick # map DidAdd (fst (Pick X (songs w)))\<rparr>)"
  by (subst enqueue_loop.simps) (simp add: songs_Pick_eq mpd_Add_uris_eq)

text \<open>
  With groups of at least one identifier the loop returns: it picks \<open>k\<close> groups, where
  \<open>k\<close> is the first number of picks whose identifiers add up to \<open>needed\<close>.
\<close>

lemma enqueue_loop_result:
  assumes "\<And>k. nth_pick X (songs w) k \<noteq> []"
  shows "\<exists>k. enqueue_loop X needed w =
               Some (w\<lparr>songs := after_picks X (songs w) k,
                       trace := trace w @ pick_effects (picked_groups X (songs w) k)\<rparr>)
             \<and> needed \<le> appended (picked_groups X (songs w) k)
             \<and> (k = 0 \<longleftrightarrow> needed \<le> 0)
             \<and> (0 < k \<longrightarrow> appended (butlast (picked_groups X (songs w) k)) < needed)"
  using assms
proof (induction "nat needed" arbitrary: needed w rule: less_induct)
  case less
  note nonempty = less.prems
  show ?case
  proof (cases "0 < needed")
    case False
    then have "enqueue_loop X needed w = Some w" by (simp add: enqueue_loop_done)
    then show ?thesis using False
      by (intro exI [of _ 0]) (simp add: pick_effects_simps appended_simps)
  next
    case True
    define g where "g = fst (Pick X (songs w))"
    define c1 where "c1 = snd (Pick X (songs w))"
    define w1 where "w1 = w\<lparr>songs := c1, trace := trace w @ DidPick # map DidAdd g\<rparr>"
    have "g \<noteq> []" unfolding g_def using nonempty [of 0] by (simp add: nth_pick_def)
    then have len: "0 < int (length g)" by simp
    have step: "enqueue_loop X needed w = enqueue_loop X (needed - int (length g)) w1"
      unfolding g_def c1_def w1_def using True by (rule enqueue_loop_step)
    have "nat (needed - int (length g)) < nat needed" using True len by linarith
    moreover have "nth_pick X (songs w1) k \<noteq> []" for k
      using nonempty [of "Suc k"] by (simp add: nth_pick_def w1_def c1_def)
    ultimately obtain k where k:
      "enqueue_loop X (needed - int (length g)) w1 =
         Some (w1\<lparr>songs := after_picks X (songs w1) k,
                  trace := trace w1 @ pick_effects (picked_groups X (songs w1) k)\<rparr>)"
      "needed - int (length g) \<le> appended (picked_groups X (songs w1) k)"
      "k = 0 \<longleftrightarrow> needed - int (length g) \<le> 0"
      "0 < k \<longrightarrow> appended (butlast (picked_groups X (songs w1) k)) < needed - int (length g)"
      using less.hyps [of "needed - int (length g)" w1] by blast
    have s1: "songs w1 = c1" by (simp add: w1_def)
    have pg: "picked_groups X (songs w) (Suc k) = g # picked_groups X c1 k"
      by (simp add: g_def c1_def)
    have "enqueue_loop X needed w =
            Some (w\<lparr>songs := after_picks X (songs w) (Suc k),
                    trace := trace w @ pick_effects (picked_groups X (songs w) (Suc k))\<rparr>)"
      using step k(1) unfolding pg s1 by (simp add: w1_def pick_effects_simps c1_def)
    moreover have "needed \<le> appended (picked_groups X (songs w) (Suc k))"
      using k(2) unfolding pg s1 by (simp add: appended_simps)
    moreover have "appended (butlast (picked_groups X (songs w) (Suc k))) < needed"
    proof (cases k)
      case 0
      then show ?thesis using True unfolding pg by (simp add: appended_simps)
    next
      case (Suc j)
      then have "picked_groups X c1 k \<noteq> []" by simp
      then show ?thesis using k(4) Suc unfolding pg s1 by (simp add: appended_simps)
    qed
    ultimately show ?thesis using True by (intro exI [of _ "Suc k"]) simp
  qed
qed

text \<open>Whenever the loop returns, it has picked some number of groups and appended them.\<close>

lemma enqueue_loop_shape:
  assumes "enqueue_loop X needed w = Some w'"
  shows "\<exists>k. w' = w\<lparr>songs := after_picks X (songs w) k,
                     trace := trace w @ pick_effects (picked_groups X (songs w) k)\<rparr>"
proof -
  let ?P = "\<lambda>X needed (w :: 'c world) w'.
              \<exists>k. w' = w\<lparr>songs := after_picks X (songs w) k,
                          trace := trace w @ pick_effects (picked_groups X (songs w) k)\<rparr>"
  show "?P X needed w w'"
  proof (rule enqueue_loop.raw_induct [where P = ?P, OF _ assms])
    fix loop :: "'c collaborators \<Rightarrow> int \<Rightarrow> 'c world \<Rightarrow> 'c world option"
    fix X needed w w'
    assume IH: "\<And>X needed w y. loop X needed w = Some y \<Longrightarrow> ?P X needed w y"
    assume body: "(if 0 < needed
                   then case songs_Pick X w of
                          (picked, w1) \<Rightarrow>
                            loop X (needed - int (length picked)) (mpd_Add_uris picked w1)
                   else Some w) = Some w'"
    show "?P X needed w w'"
    proof (cases "0 < needed")
      case False
      with body have "w' = w" by simp
      then show ?thesis by (intro exI [of _ 0]) (simp add: pick_effects_simps)
    next
      case True
      define w1 where "w1 = w\<lparr>songs := snd (Pick X (songs w)),
        trace := trace w @ DidPick # map DidAdd (fst (Pick X (songs w)))\<rparr>"
      from True body
      have "loop X (needed - int (length (fst (Pick X (songs w))))) w1 = Some w'"
        by (simp add: songs_Pick_eq mpd_Add_uris_eq w1_def)
      from IH [OF this] obtain k where
        "w' = w1\<lparr>songs := after_picks X (songs w1) k,
                  trace := trace w1 @ pick_effects (picked_groups X (songs w1) k)\<rparr>" ..
      then show ?thesis
        by (intro exI [of _ "Suc k"]) (simp add: w1_def pick_effects_simps)
    qed
  qed
qed

text \<open>A chain whose picks are all empty never brings a positive \<open>needed\<close> down.\<close>

lemma enqueue_loop_stops_only_when_satisfied:
  assumes "enqueue_loop X needed w = Some w'"
  shows "(\<forall>k. nth_pick X (songs w) k = []) \<longrightarrow> needed \<le> 0"
proof -
  let ?P = "\<lambda>X needed (w :: 'c world) (w' :: 'c world).
              (\<forall>k. nth_pick X (songs w) k = []) \<longrightarrow> needed \<le> (0::int)"
  show "?P X needed w w'"
  proof (rule enqueue_loop.raw_induct [where P = ?P, OF _ assms])
    fix loop :: "'c collaborators \<Rightarrow> int \<Rightarrow> 'c world \<Rightarrow> 'c world option"
    fix X needed w w'
    assume IH: "\<And>X needed w y. loop X needed w = Some y \<Longrightarrow> ?P X needed w y"
    assume body: "(if 0 < needed
                   then case songs_Pick X w of
                          (picked, w1) \<Rightarrow>
                            loop X (needed - int (length picked)) (mpd_Add_uris picked w1)
                   else Some w) = Some w'"
    show "?P X needed w w'"
    proof (intro impI)
      assume empty: "\<forall>k. nth_pick X (songs w) k = []"
      show "needed \<le> 0"
      proof (rule ccontr)
        assume "\<not> needed \<le> 0"
        then have pos: "0 < needed" by simp
        define w1 where "w1 = w\<lparr>songs := snd (Pick X (songs w)), trace := trace w @ [DidPick]\<rparr>"
        have first: "fst (Pick X (songs w)) = []"
          using empty [rule_format, of 0] by (simp add: nth_pick_def)
        have rest: "\<forall>k. nth_pick X (songs w1) k = []"
          using empty [rule_format, of "Suc k" for k] by (simp add: nth_pick_def w1_def)
        from pos body first have "loop X needed w1 = Some w'"
          by (simp add: songs_Pick_eq mpd_Add_uris_eq w1_def)
        from IH [OF this] rest pos show False by simp
      qed
    qed
  qed
qed

lemma enqueue_loop_diverges:
  assumes "\<And>k. nth_pick X (songs w) k = []" and "0 < needed"
  shows "enqueue_loop X needed w = None"
proof (cases "enqueue_loop X needed w")
  case None
  then show ?thesis .
next
  case (Some w')
  from enqueue_loop_stops_only_when_satisfied [OF this] assms show ?thesis by simp
qed

subsection \<open>The round-robin chain\<close>

lemma round_robin_after_picks:
  "after_picks (round_robin catalog) (gs, i) k = (gs, i + k)"
  by (induction k arbitrary: i) (simp_all add: round_robin_def)

lemma round_robin_nth_pick:
  "nth_pick (round_robin catalog) (gs, i) k =
     (if gs = [] then [] else gs ! ((i + k) mod length gs))"
  by (simp add: nth_pick_def round_robin_after_picks) (simp add: round_robin_def)

lemma round_robin_picks_nonempty:
  assumes "gs \<noteq> []" and "[] \<notin> set gs"
  shows "nth_pick (round_robin catalog) (gs, i) k \<noteq> []"
proof -
  have "(i + k) mod length gs < length gs" using assms(1) by simp
  then have "gs ! ((i + k) mod length gs) \<in> set gs" by (rule nth_mem)
  then have "gs ! ((i + k) mod length gs) \<noteq> []" using assms(2) by metis
  then show ?thesis using assms(1) by (simp add: round_robin_nth_pick)
qed

lemma songs_fresh_world: "songs (fresh_world c p i) = c"
  by (simp add: fresh_world_def)

lemma trace_fresh_world: "trace (fresh_world c p i) = []"
  by (simp add: fresh_world_def)

subsection \<open>Termination of the append loop\<close>

text \<open>
  C10, as amended. For every value of \<open>needed\<close> and every chain whose picks all hold
  at least one identifier, the loop \<^verbatim>\<open>while (needed > 0)\<close> of the enqueue decision
  returns, and each pass brings \<open>needed\<close> strictly down, by the size of the group it
  picked. If every pick is an empty sequence and \<open>needed\<close> is positive, the loop never
  returns.
\<close>

theorem enqueue_loop_termination:
  "((\<forall>k. nth_pick X (songs w) k \<noteq> []) \<longrightarrow>
      (\<exists>w'. enqueue_loop X needed w = Some w') \<and>
      (0 < needed \<longrightarrow>
         needed - int (length (nth_pick X (songs w) 0)) < needed \<and>
         enqueue_loop X needed w =
           enqueue_loop X (needed - int (length (nth_pick X (songs w) 0)))
             (w\<lparr>songs := snd (Pick X (songs w)),
                trace := trace w @ DidPick # map DidAdd (nth_pick X (songs w) 0)\<rparr>)))
   \<and> ((\<forall>k. nth_pick X (songs w) k = []) \<and> 0 < needed \<longrightarrow>
         enqueue_loop X needed w = None)"
proof (intro conjI impI)
  assume "\<forall>k. nth_pick X (songs w) k \<noteq> []"
  then show "\<exists>w'. enqueue_loop X needed w = Some w'"
    using enqueue_loop_result [of X w needed] by blast
next
  assume "\<forall>k. nth_pick X (songs w) k \<noteq> []"
  then have "nth_pick X (songs w) 0 \<noteq> []" by blast
  then show "needed - int (length (nth_pick X (songs w) 0)) < needed" by simp
next
  assume "0 < needed"
  then show "enqueue_loop X needed w =
           enqueue_loop X (needed - int (length (nth_pick X (songs w) 0)))
             (w\<lparr>songs := snd (Pick X (songs w)),
                trace := trace w @ DidPick # map DidAdd (nth_pick X (songs w) 0)\<rparr>)"
    by (simp add: enqueue_loop_step nth_pick_def)
next
  assume "(\<forall>k. nth_pick X (songs w) k = []) \<and> 0 < needed"
  then show "enqueue_loop X needed w = None"
    by (simp add: enqueue_loop_diverges)
qed

theorem enqueue_loop_termination_witness:
  "(\<exists>w'. enqueue_loop (round_robin []) 3
            (fresh_world ([[''a'', ''b'']], 0) (player_always stopped_on_empty_queue)
               (idle_returns 0)) = Some w')
   \<and> enqueue_loop (round_robin []) 3
        (fresh_world ([[]], 0) (player_always stopped_on_empty_queue) (idle_returns 0)) = None"
proof -
  let ?w1 = "fresh_world ([[''a'', ''b'']], 0 :: nat) (player_always stopped_on_empty_queue)
               (idle_returns 0)"
  let ?w2 = "fresh_world ([[]] :: string list list, 0 :: nat)
               (player_always stopped_on_empty_queue) (idle_returns 0)"
  have "\<forall>k. nth_pick (round_robin []) (songs ?w1) k \<noteq> []"
    by (simp add: songs_fresh_world round_robin_picks_nonempty)
  then have "\<exists>w'. enqueue_loop (round_robin []) 3 ?w1 = Some w'"
    using enqueue_loop_termination [of "round_robin []" ?w1 3] by blast
  moreover have "\<forall>k. nth_pick (round_robin []) (songs ?w2) k = []"
    by (simp add: songs_fresh_world round_robin_nth_pick)
  then have "enqueue_loop (round_robin []) 3 ?w2 = None"
    using enqueue_loop_termination [of "round_robin []" ?w2 3] by simp
  ultimately show ?thesis by simp
qed

text \<open>
  C10 as stated fails: one empty pick does not keep the loop from returning. With the
  picks \<open>[]\<close>, \<open>[''a'']\<close> and \<open>needed = 1\<close> the first pass leaves \<open>needed\<close> at 1 and
  the second ends the loop.
\<close>

theorem enqueue_loop_empty_pick_counterexample:
  "nth_pick (round_robin []) ([[], [''a'']], 0) 0 = []
   \<and> map_option trace
        (enqueue_loop (round_robin []) 1
           (fresh_world ([[], [''a'']], 0) (player_always stopped_on_empty_queue)
              (idle_returns 0)))
      = Some [DidPick, DidPick, DidAdd ''a'']"
proof
  show "nth_pick (round_robin []) ([[], [''a'']], 0) 0 = []"
    by (simp add: round_robin_nth_pick)
  show "map_option trace
        (enqueue_loop (round_robin []) 1
           (fresh_world ([[], [''a'']], 0) (player_always stopped_on_empty_queue)
              (idle_returns 0)))
      = Some [DidPick, DidPick, DidAdd ''a'']"
    by (simp add: enqueue_loop_step enqueue_loop_done round_robin_def fresh_world_def)
qed

subsection \<open>The decision to add\<close>

lemma count_after: "length (filter (\<lambda>i. k < int i) [0..<n]) = n - nat (k + 1)"
  by (induction n) auto

lemma sint_nonneg_uint:
  fixes x :: "32 word"
  assumes "0 \<le> sint x"
  shows "sint x = uint x"
proof -
  have "sint x < 2 ^ 32" using sint_lt [of x] by simp
  then have "take_bit 32 (sint x) = sint x" using assms by (simp add: take_bit_int_eq_self)
  then show ?thesis using uint_sint [of x] by simp
qed

lemma remaining_of_valid_position:
  fixes len pos :: "32 word"
  assumes "0 \<le> sint pos" and "sint pos < uint len"
  shows "unat (len - (pos + 1)) = unat len - nat (sint pos + 1)"
proof -
  have u: "sint pos = uint pos" using assms(1) by (rule sint_nonneg_uint)
  have lt: "pos < len" using assms(2) u by (simp add: word_less_def)
  then have "pos + 1 \<le> len" by (simp add: inc_le)
  then have "unat (len - (pos + 1)) = unat len - unat (pos + 1)" by (rule unat_sub)
  moreover have "unat (pos + 1) = Suc (unat pos)" using lt by unat_arith
  ultimately show ?thesis using u by (simp add: nat_add_distrib)
qed

lemma queue_songs_remaining_counts:
  assumes "\<And>pos. SongPosition status = Some pos \<Longrightarrow>
             0 \<le> sint pos \<and> sint pos < uint (QueueLength status)"
  shows "unat (queue_songs_remaining status) = songs_after_current status"
proof (cases "SongPosition status")
  case None
  then show ?thesis by (simp add: queue_songs_remaining_def songs_after_current_def)
next
  case (Some pos)
  with assms have "0 \<le> sint pos" and "sint pos < uint (QueueLength status)" by simp_all
  then show ?thesis using Some
    by (simp add: queue_songs_remaining_def songs_after_current_def count_after
          remaining_of_valid_position)
qed

text \<open>
  C2. Take a status whose current song position, when present, is a position of the
  queue (not negative, strictly below the queue length). Then the local
  \<^verbatim>\<open>queue_songs_remaining\<close> is the number of queued songs strictly after the current
  position (0 without a current song), and \<^verbatim>\<open>should_add\<close> is true exactly when there
  is no current song position, or that number is strictly less than
  \<^verbatim>\<open>queue_buffer\<close>, or the queue length is 0.
\<close>

theorem should_add_iff:
  assumes "\<And>pos. SongPosition status = Some pos \<Longrightarrow>
             0 \<le> sint pos \<and> sint pos < uint (QueueLength status)"
  shows "unat (queue_songs_remaining status) = songs_after_current status
         \<and> (should_add options status \<longleftrightarrow>
              SongPosition status = None
              \<or> songs_after_current status < unat (queue_buffer options)
              \<or> unat (QueueLength status) = 0)"
proof -
  have r: "unat (queue_songs_remaining status) = songs_after_current status"
    using assms by (rule queue_songs_remaining_counts)
  have "queue_songs_remaining status < queue_buffer options \<longleftrightarrow>
          songs_after_current status < unat (queue_buffer options)"
    by (simp add: word_less_nat_alt r)
  moreover have "queue_empty status \<longleftrightarrow> unat (QueueLength status) = 0"
    by (simp add: queue_empty_def unat_eq_0)
  moreover have "past_last status \<longleftrightarrow> SongPosition status = None"
    by (simp add: past_last_def split: option.split)
  ultimately show ?thesis using r by (auto simp: should_add_def)
qed

theorem should_add_iff_witness:
  "songs_after_current (playing_at 0 3) = 2
   \<and> \<not> should_add (default_options\<lparr>queue_buffer := 2\<rparr>) (playing_at 0 3)
   \<and> should_add (default_options\<lparr>queue_buffer := 3\<rparr>) (playing_at 0 3)"
proof -
  have valid: "\<And>pos. SongPosition (playing_at 0 3) = Some pos \<Longrightarrow>
                 0 \<le> sint pos \<and> sint pos < uint (QueueLength (playing_at 0 3))"
    by (auto simp: playing_at_def)
  have "songs_after_current (playing_at 0 3) = 2"
    using should_add_iff [of "playing_at 0 3" default_options, OF valid]
    by (simp add: queue_songs_remaining_def playing_at_def)
  then show ?thesis
    using should_add_iff [of "playing_at 0 3" "default_options\<lparr>queue_buffer := 2\<rparr>", OF valid]
          should_add_iff [of "playing_at 0 3" "default_options\<lparr>queue_buffer := 3\<rparr>", OF valid]
    by (simp add: playing_at_def)
qed

subsection \<open>The enqueue decision as a whole\<close>

lemma should_add_without_buffer:
  assumes "queue_buffer options = 0"
  shows "should_add options status \<longleftrightarrow> past_last status \<or> queue_empty status"
  using assms by (simp add: should_add_def)

lemma restart_implies_should_add:
  "past_last status \<or> queue_empty status \<Longrightarrow> should_add options status"
  by (auto simp: should_add_def)

text \<open>Every result of \<^verbatim>\<open>TryEnqueue\<close> has the shape of \<open>enqueue_outcome\<close>.\<close>

lemma TryEnqueue_shape:
  assumes "TryEnqueue X options w = Some w'"
  shows "\<exists>k. w' = enqueue_outcome X options w k"
proof -
  define status where "status = player w (n_status w)"
  define w1 where "w1 = w\<lparr>n_status := Suc (n_status w), trace := trace w @ [DidCurrentStatus]\<rparr>"
  consider (skip) "\<not> should_add options status"
    | (one) "should_add options status" "queue_buffer options = 0"
    | (loop) "should_add options status" "queue_buffer options \<noteq> 0"
    by blast
  then show ?thesis
  proof cases
    case skip
    with assms have "w' = w1"
      by (simp add: TryEnqueue_def mpd_CurrentStatus_eq status_def w1_def)
    then show ?thesis using skip
      by (intro exI [of _ 0])
         (simp add: enqueue_outcome_def w1_def status_def pick_effects_simps)
  next
    case one
    with assms show ?thesis
      by (intro exI [of _ 1])
         (auto simp: TryEnqueue_def mpd_CurrentStatus_eq songs_Pick_eq mpd_Add_uris_eq
            restart_player_eq enqueue_outcome_def status_def pick_effects_simps)
  next
    case loop
    with assms obtain w2 where w2: "enqueue_loop X (needed_init options status) w1 = Some w2"
      and w': "w' = (if past_last status \<or> queue_empty status
                     then restart_player status w2 else w2)"
      by (auto simp: TryEnqueue_def mpd_CurrentStatus_eq status_def w1_def
            split: bind_splits if_splits)
    from enqueue_loop_shape [OF w2] obtain k where
      "w2 = w1\<lparr>songs := after_picks X (songs w1) k,
               trace := trace w1 @ pick_effects (picked_groups X (songs w1) k)\<rparr>" ..
    then show ?thesis using w' loop
      by (intro exI [of _ k])
         (simp add: enqueue_outcome_def w1_def status_def restart_player_eq)
  qed
qed

lemma TryEnqueue_returns:
  assumes "\<And>k. nth_pick X (songs w) k \<noteq> []"
  shows "\<exists>k. TryEnqueue X options w = Some (enqueue_outcome X options w k)"
proof -
  define status where "status = player w (n_status w)"
  define w1 where "w1 = w\<lparr>n_status := Suc (n_status w), trace := trace w @ [DidCurrentStatus]\<rparr>"
  have "\<And>k. nth_pick X (songs w1) k \<noteq> []" using assms by (simp add: w1_def)
  from enqueue_loop_result [of X w1 "needed_init options status", OF this]
  obtain w2 where "enqueue_loop X (needed_init options status) w1 = Some w2" by blast
  then have "\<exists>w'. TryEnqueue X options w = Some w'"
    by (simp add: TryEnqueue_def mpd_CurrentStatus_eq songs_Pick_eq status_def w1_def)
  then obtain w' where w': "TryEnqueue X options w = Some w'" ..
  from TryEnqueue_shape [OF this] w' show ?thesis by auto
qed

subsection \<open>Enqueueing without a queue buffer\<close>

lemma count_list_map_DidAdd: "count_list (map DidAdd uris) DidPick = 0"
  by (induction uris) simp_all

lemma count_list_restart_effects: "count_list (restart_effects status) DidPick = 0"
  by (simp add: restart_effects_def)

text \<open>
  C5. With \<^verbatim>\<open>queue_buffer\<close> equal to 0 and \<^verbatim>\<open>should_add\<close> true, the enqueue decision
  calls \<^verbatim>\<open>Pick\<close> exactly once and appends exactly the identifiers of that group,
  whatever the size of the group; it then restarts the player. In particular this is
  what happens when there is no current song (as on an empty queue), since
  \<^verbatim>\<open>should_add\<close> holds then.
\<close>

theorem TryEnqueue_without_buffer:
  assumes "queue_buffer options = 0"
      and "player w (n_status w) = status"
  shows "(SongPosition status = None \<longrightarrow> should_add options status)
         \<and> (should_add options status \<longrightarrow>
              (\<exists>w'. TryEnqueue X options w = Some w'
                  \<and> songs w' = snd (Pick X (songs w))
                  \<and> trace w' = trace w @ DidCurrentStatus # DidPick
                                 # map DidAdd (fst (Pick X (songs w)))
                                 @ restart_effects status
                  \<and> count_list (trace w') DidPick = count_list (trace w) DidPick + 1))"
proof (intro conjI impI)
  assume "SongPosition status = None"
  then show "should_add options status" by (simp add: should_add_def past_last_def)
next
  assume add: "should_add options status"
  then have "past_last status \<or> queue_empty status"
    using assms(1) by (simp add: should_add_without_buffer)
  then have "TryEnqueue X options w =
      Some (w\<lparr>songs := snd (Pick X (songs w)),
              n_status := Suc (n_status w),
              trace := trace w @ DidCurrentStatus # DidPick
                       # map DidAdd (fst (Pick X (songs w))) @ restart_effects status\<rparr>)"
    using add assms
    by (auto simp: TryEnqueue_def mpd_CurrentStatus_eq songs_Pick_eq mpd_Add_uris_eq
          restart_player_eq)
  then show "\<exists>w'. TryEnqueue X options w = Some w'
                  \<and> songs w' = snd (Pick X (songs w))
                  \<and> trace w' = trace w @ DidCurrentStatus # DidPick
                                 # map DidAdd (fst (Pick X (songs w)))
                                 @ restart_effects status
                  \<and> count_list (trace w') DidPick = count_list (trace w) DidPick + 1"
    by (simp add: count_list_map_DidAdd count_list_restart_effects)
qed

text \<open>
  Scenario A of the specification: no queue buffer, an empty queue, no current song and
  single mode off. One group is enqueued, playback starts at position 0, nothing is
  paused.
\<close>

theorem TryEnqueue_without_buffer_witness:
  "map_option trace
     (TryEnqueue (round_robin []) default_options
        (fresh_world ([[''a1'', ''a2''], [''b'']], 0)
           (player_always stopped_on_empty_queue) (idle_returns 0)))
   = Some [DidCurrentStatus, DidPick, DidAdd ''a1'', DidAdd ''a2'', DidPlayAt 0]"
proof -
  let ?w = "fresh_world ([[''a1'', ''a2''], [''b'']], 0 :: nat)
              (player_always stopped_on_empty_queue) (idle_returns 0)"
  have "queue_buffer default_options = 0" by (simp add: default_options_def)
  moreover have "player ?w (n_status ?w) = stopped_on_empty_queue"
    by (simp add: fresh_world_def player_always_def)
  moreover have "SongPosition stopped_on_empty_queue = None"
    by (simp add: stopped_on_empty_queue_def)
  ultimately obtain w' where
    "TryEnqueue (round_robin []) default_options ?w = Some w'"
    "trace w' = trace ?w @ DidCurrentStatus # DidPick
                  # map DidAdd (fst (Pick (round_robin []) (songs ?w)))
                  @ restart_effects stopped_on_empty_queue"
    using TryEnqueue_without_buffer
            [of default_options ?w stopped_on_empty_queue "round_robin []"]
    by blast
  then show ?thesis
    by (simp add: fresh_world_def round_robin_def restart_effects_def
          stopped_on_empty_queue_def)
qed

subsection \<open>Filling the queue buffer\<close>

lemma sint_small_uint:
  fixes x :: "32 word"
  assumes "uint x < 2 ^ 31"
  shows "sint x = uint x"
proof -
  have "- (2 ^ 31) \<le> (0::int)" by simp
  also have "0 \<le> uint x" by simp
  finally have "- (2 ^ 31) \<le> uint x" .
  then have "signed_take_bit 31 (uint x) = uint x"
    using assms by (simp add: signed_take_bit_int_eq_self)
  then show ?thesis by (simp add: sint_uint)
qed

lemma appended_butlast:
  "gs \<noteq> [] \<Longrightarrow> appended gs = appended (butlast gs) + int (length (last gs))"
  by (induction gs) (auto simp: appended_simps)

text \<open>
  For a queue buffer \<open>0 < queue_buffer < 2^31 - 1\<close>, where the \<^verbatim>\<open>int\<close> arithmetic on
  \<^verbatim>\<open>needed\<close> is exact, and a status whose position is a position of the queue:
  \<^verbatim>\<open>needed\<close> is \<open>queue_buffer - remaining\<close>, plus one without a current song or on an
  empty queue; it is positive; the decision picks and appends groups until the
  appended identifiers reach \<^verbatim>\<open>needed\<close>, and the excess is smaller than the last
  group picked.
\<close>

lemma TryEnqueue_fills_buffer:
  assumes read: "player w (n_status w) = status"
      and add: "should_add options status"
      and buffer: "queue_buffer options \<noteq> 0" "uint (queue_buffer options) < 2 ^ 31 - 1"
      and valid: "\<And>pos. SongPosition status = Some pos \<Longrightarrow>
                    0 \<le> sint pos \<and> sint pos < uint (QueueLength status)"
      and nonempty: "\<And>k. nth_pick X (songs w) k \<noteq> []"
  shows "needed_init options status =
           int (unat (queue_buffer options)) - int (songs_after_current status)
           + (if past_last status \<or> queue_empty status then 1 else 0)
         \<and> 0 < needed_init options status
         \<and> (\<exists>k. 0 < k
              \<and> TryEnqueue X options w = Some (enqueue_outcome X options w k)
              \<and> needed_init options status \<le> appended (picked_groups X (songs w) k)
              \<and> appended (picked_groups X (songs w) k) - needed_init options status
                  < int (length (last (picked_groups X (songs w) k))))"
proof -
  define w1 where "w1 = w\<lparr>n_status := Suc (n_status w), trace := trace w @ [DidCurrentStatus]\<rparr>"
  have count: "unat (queue_songs_remaining status) = songs_after_current status"
    using valid by (rule queue_songs_remaining_counts)
  have qb: "sint (queue_buffer options) = uint (queue_buffer options)"
    using buffer(2) by (simp add: sint_small_uint)
  have below: "queue_songs_remaining status < queue_buffer options \<or> past_last status"
  proof (cases "SongPosition status")
    case None
    then show ?thesis by (simp add: past_last_def)
  next
    case (Some pos)
    with valid have "0 < uint (QueueLength status)" by fastforce
    then have "\<not> queue_empty status" by (auto simp: queue_empty_def)
    with add Some show ?thesis by (simp add: should_add_def past_last_def split: if_splits)
  qed
  have small: "uint (queue_songs_remaining status) < 2 ^ 31"
  proof (cases "past_last status")
    case True
    then show ?thesis by (simp add: queue_songs_remaining_def past_last_def split: option.splits)
  next
    case False
    with below have "uint (queue_songs_remaining status) < uint (queue_buffer options)"
      by (simp add: word_less_def)
    with buffer(2) show ?thesis by linarith
  qed
  then have "sint (queue_songs_remaining status) = uint (queue_songs_remaining status)"
    by (rule sint_small_uint)
  also have "\<dots> = int (unat (queue_songs_remaining status))" by simp
  finally have rem: "sint (queue_songs_remaining status) = int (songs_after_current status)"
    using count by simp
  have le: "int (songs_after_current status) \<le> uint (queue_buffer options)"
  proof (cases "past_last status")
    case True
    then have "songs_after_current status = 0"
      by (simp add: songs_after_current_def past_last_def split: option.splits)
    then show ?thesis by simp
  next
    case False
    with below have "unat (queue_songs_remaining status) < unat (queue_buffer options)"
      by (simp add: word_less_nat_alt)
    then have "int (songs_after_current status) < int (unat (queue_buffer options))"
      unfolding count by (rule of_nat_less_iff [THEN iffD2])
    then show ?thesis by simp
  qed
  define d where "d = uint (queue_buffer options) - int (songs_after_current status)"
  have d: "0 \<le> d" "d + 1 < 2 ^ 31" using le buffer(2) by (simp_all add: d_def)
  have "int32 d = d" "int32 (d + 1) = d + 1"
    using d by (simp_all add: int32_def signed_take_bit_int_eq_self)
  then have needed: "needed_init options status =
           int (unat (queue_buffer options)) - int (songs_after_current status)
           + (if past_last status \<or> queue_empty status then 1 else 0)"
    by (simp add: needed_init_def qb rem d_def [symmetric])
  have pos: "0 < needed_init options status"
  proof (cases "past_last status")
    case True
    then have "songs_after_current status = 0"
      by (simp add: songs_after_current_def past_last_def split: option.splits)
    with True show ?thesis unfolding needed by simp
  next
    case False
    with below have "unat (queue_songs_remaining status) < unat (queue_buffer options)"
      by (simp add: word_less_nat_alt)
    then have "int (songs_after_current status) < int (unat (queue_buffer options))"
      unfolding count by (rule of_nat_less_iff [THEN iffD2])
    then show ?thesis unfolding needed by auto
  qed
  have "\<And>k. nth_pick X (songs w1) k \<noteq> []" using nonempty by (simp add: w1_def)
  from enqueue_loop_result [of X w1 "needed_init options status", OF this]
  obtain k where k:
    "enqueue_loop X (needed_init options status) w1 =
       Some (w1\<lparr>songs := after_picks X (songs w1) k,
                trace := trace w1 @ pick_effects (picked_groups X (songs w1) k)\<rparr>)"
    "needed_init options status \<le> appended (picked_groups X (songs w1) k)"
    "k = 0 \<longleftrightarrow> needed_init options status \<le> 0"
    "0 < k \<longrightarrow> appended (butlast (picked_groups X (songs w1) k)) < needed_init options status"
    by blast
  have s1: "songs w1 = songs w" by (simp add: w1_def)
  have k0: "0 < k" using k(3) pos by simp
  then have "picked_groups X (songs w) k \<noteq> []" by (cases k) simp_all
  then have excess: "appended (picked_groups X (songs w) k) - needed_init options status
                       < int (length (last (picked_groups X (songs w) k)))"
    using k(4) k0 s1 by (simp add: appended_butlast)
  have "TryEnqueue X options w = Some (enqueue_outcome X options w k)"
    using k(1) add buffer(1) read
    by (simp add: TryEnqueue_def mpd_CurrentStatus_eq w1_def [symmetric] s1)
       (simp add: enqueue_outcome_def w1_def restart_player_eq)
  with needed pos k0 k(2) excess s1 show ?thesis by auto
qed

text \<open>
  C3 at \<^verbatim>\<open>queue_buffer = 2147483648\<close>, on an empty queue without a current song:
  \<^verbatim>\<open>should_add\<close> holds and the queue buffer is positive, but
  \<^verbatim>\<open>static_cast<int>(options.queue_buffer)\<close> is negative, \<^verbatim>\<open>needed\<close> is
  \<open>- 2147483647\<close>, the loop is not entered, and the decision appends nothing before it
  calls \<^verbatim>\<open>PlayAt(0)\<close>.
\<close>

theorem TryEnqueue_large_buffer_appends_nothing:
  "should_add (default_options\<lparr>queue_buffer := 2147483648\<rparr>) stopped_on_empty_queue
   \<and> 0 < queue_buffer (default_options\<lparr>queue_buffer := 2147483648\<rparr>)
   \<and> needed_init (default_options\<lparr>queue_buffer := 2147483648\<rparr>) stopped_on_empty_queue
       = - 2147483647
   \<and> map_option trace
        (TryEnqueue (round_robin []) (default_options\<lparr>queue_buffer := 2147483648\<rparr>)
           (fresh_world ([[''a'']], 0) (player_always stopped_on_empty_queue)
              (idle_returns 0)))
       = Some [DidCurrentStatus, DidPlayAt 0]"
  by (simp add: TryEnqueue_def mpd_CurrentStatus_eq should_add_def past_last_def
        queue_empty_def needed_init_def int32_def queue_songs_remaining_def default_options_def
        fresh_world_def player_always_def enqueue_loop_done stopped_on_empty_queue_def
        restart_player_eq restart_effects_def)

subsection \<open>Restarting the player\<close>

text \<open>
  When \<^verbatim>\<open>should_add\<close> holds and there is no current song or the queue is empty, every
  result of the enqueue decision has, after the picks and the appended identifiers, a
  call of \<^verbatim>\<open>PlayAt\<close> with the queue length of the status read before enqueueing, and
  then a call of \<^verbatim>\<open>Pause\<close> exactly when that status reports single mode. The decision
  returns whenever the picked groups each hold at least one identifier.
\<close>

lemma TryEnqueue_restart_trace:
  assumes "player w (n_status w) = status"
      and "should_add options status"
      and "past_last status \<or> queue_empty status"
  shows "(\<forall>w'. TryEnqueue X options w = Some w' \<longrightarrow>
            (\<exists>adds. trace w' = trace w @ DidCurrentStatus # adds
                                 @ DidPlayAt (QueueLength status)
                                 # (if Single status then [DidPause] else [])
                 \<and> (\<forall>e \<in> set adds. e = DidPick \<or> (\<exists>uri. e = DidAdd uri))))
         \<and> ((\<forall>k. nth_pick X (songs w) k \<noteq> []) \<longrightarrow>
                (\<exists>w'. TryEnqueue X options w = Some w'))"
proof (intro conjI allI impI)
  fix w'
  assume "TryEnqueue X options w = Some w'"
  from TryEnqueue_shape [OF this]
  obtain k where "w' = enqueue_outcome X options w k" ..
  then have "trace w' =
      trace w @ DidCurrentStatus # pick_effects (picked_groups X (songs w) k)
        @ DidPlayAt (QueueLength status) # (if Single status then [DidPause] else [])"
    using assms by (simp add: enqueue_outcome_def restart_effects_def)
  moreover have "\<forall>e \<in> set (pick_effects (picked_groups X (songs w) k)).
                   e = DidPick \<or> (\<exists>uri. e = DidAdd uri)"
    using pick_effects_only_pick_and_add by blast
  ultimately show "\<exists>adds. trace w' = trace w @ DidCurrentStatus # adds
                                 @ DidPlayAt (QueueLength status)
                                 # (if Single status then [DidPause] else [])
                 \<and> (\<forall>e \<in> set adds. e = DidPick \<or> (\<exists>uri. e = DidAdd uri))"
    by blast
next
  assume "\<forall>k. nth_pick X (songs w) k \<noteq> []"
  then show "\<exists>w'. TryEnqueue X options w = Some w'"
    using TryEnqueue_returns [of X w options] by blast
qed

text \<open>
  For a queue buffer below \<open>2^31 - 1\<close> and a status whose position is a position of the
  queue, the restart comes after at least one appended identifier: the decision picks
  \<open>k > 0\<close> groups, the first of them is not empty, and the \<^verbatim>\<open>PlayAt\<close> with the
  pre-enqueue queue length follows the identifiers appended.
\<close>

lemma TryEnqueue_restart_after_append:
  assumes read: "player w (n_status w) = status"
      and restart: "past_last status \<or> queue_empty status"
      and range: "uint (queue_buffer options) < 2 ^ 31 - 1"
      and valid: "\<And>pos. SongPosition status = Some pos \<Longrightarrow>
                    0 \<le> sint pos \<and> sint pos < uint (QueueLength status)"
      and nonempty: "\<And>k. nth_pick X (songs w) k \<noteq> []"
  shows "\<exists>k. TryEnqueue X options w = Some (enqueue_outcome X options w (Suc k))
             \<and> nth_pick X (songs w) 0 \<noteq> []
             \<and> trace (enqueue_outcome X options w (Suc k)) =
                 trace w @ DidCurrentStatus # DidPick # map DidAdd (nth_pick X (songs w) 0)
                 @ pick_effects (picked_groups X (snd (Pick X (songs w))) k)
                 @ DidPlayAt (QueueLength status) # (if Single status then [DidPause] else [])"
proof -
  have add: "should_add options status" using restart by (rule restart_implies_should_add)
  have tr: "trace (enqueue_outcome X options w (Suc k)) =
                 trace w @ DidCurrentStatus # DidPick # map DidAdd (nth_pick X (songs w) 0)
                 @ pick_effects (picked_groups X (snd (Pick X (songs w))) k)
                 @ DidPlayAt (QueueLength status) # (if Single status then [DidPause] else [])"
    for k
    using read add restart
    by (simp add: enqueue_outcome_def pick_effects_simps nth_pick_def restart_effects_def)
  have "\<exists>k. TryEnqueue X options w = Some (enqueue_outcome X options w (Suc k))"
  proof (cases "queue_buffer options = 0")
    case True
    with read add restart have "TryEnqueue X options w = Some (enqueue_outcome X options w (Suc 0))"
      by (auto simp: TryEnqueue_def mpd_CurrentStatus_eq songs_Pick_eq mpd_Add_uris_eq
            restart_player_eq enqueue_outcome_def pick_effects_simps)
    then show ?thesis ..
  next
    case False
    from TryEnqueue_fills_buffer [OF read add False range valid nonempty]
    obtain k where "0 < k" "TryEnqueue X options w = Some (enqueue_outcome X options w k)"
      by blast
    then show ?thesis by (cases k) auto
  qed
  with tr nonempty [of 0] show ?thesis by blast
qed

text \<open>
  Scenario C of the specification, in single mode: a queue buffer of 2 and a queue of
  two songs played to its end. Three identifiers are appended, playback starts at
  position 2, the pre-enqueue queue length, and is paused at once.
\<close>

lemma TryEnqueue_restart_scenario_C:
  "map_option trace
     (TryEnqueue (round_robin []) (default_options\<lparr>queue_buffer := 2\<rparr>)
        (fresh_world ([[''a1'', ''a2''], [''b'']], 0)
           (player_always \<lparr>QueueLength = 2, Single = True, SongPosition = None,
                            IsPlaying = False\<rparr>)
           (idle_returns 0)))
   = Some [DidCurrentStatus, DidPick, DidAdd ''a1'', DidAdd ''a2'', DidPick, DidAdd ''b'',
           DidPlayAt 2, DidPause]"
  by (simp add: TryEnqueue_def mpd_CurrentStatus_eq should_add_def past_last_def
        queue_empty_def needed_init_def int32_def queue_songs_remaining_def default_options_def
        fresh_world_def player_always_def enqueue_loop_step enqueue_loop_done
        round_robin_def restart_player_eq restart_effects_def)

text \<open>
  C4 at \<^verbatim>\<open>queue_buffer = 2147483648\<close>, on a queue of two songs played to its end, in
  single mode: \<^verbatim>\<open>should_add\<close> holds and there is no current song, \<^verbatim>\<open>PlayAt\<close> is
  called with the pre-enqueue queue length 2 and \<^verbatim>\<open>Pause\<close> follows, but nothing is
  picked or appended before, so position 2 is not the index of a newly appended
  identifier: it lies past the end of the queue. \<^verbatim>\<open>needed\<close> is negative by the cast
  of \<^verbatim>\<open>queue_buffer\<close> to \<^verbatim>\<open>int\<close>, as for C3.
\<close>

theorem TryEnqueue_large_buffer_restarts_past_the_queue:
  "should_add (default_options\<lparr>queue_buffer := 2147483648\<rparr>)
     \<lparr>QueueLength = 2, Single = True, SongPosition = None, IsPlaying = False\<rparr>
   \<and> past_last \<lparr>QueueLength = 2, Single = True, SongPosition = None, IsPlaying = False\<rparr>
   \<and> map_option trace
        (TryEnqueue (round_robin []) (default_options\<lparr>queue_buffer := 2147483648\<rparr>)
           (fresh_world ([[''a'']], 0)
              (player_always \<lparr>QueueLength = 2, Single = True, SongPosition = None,
                               IsPlaying = False\<rparr>)
              (idle_returns 0)))
       = Some [DidCurrentStatus, DidPlayAt 2, DidPause]"
  by (simp add: TryEnqueue_def mpd_CurrentStatus_eq should_add_def past_last_def
        queue_empty_def needed_init_def int32_def queue_songs_remaining_def default_options_def
        fresh_world_def player_always_def enqueue_loop_done
        restart_player_eq restart_effects_def)

subsection \<open>One pass of the event loop\<close>

lemma queue_handling_pick_effects: "e \<in> set (pick_effects gs) \<Longrightarrow> queue_handling e"
  using pick_effects_only_pick_and_add [of e gs] by auto

lemma queue_handling_restart_effects: "e \<in> set (restart_effects status) \<Longrightarrow> queue_handling e"
  by (auto simp: restart_effects_def split: if_splits)

lemma suspend_check_eq:
  "suspend_check options active w =
     (if suspend_timeout (tweak options) = 0 then (active, w)
      else if QueueLength (player w (n_status w)) = 0
      then (QueueLength (player w (Suc (n_status w))) = 0,
            w\<lparr>n_status := Suc (Suc (n_status w)),
              trace := trace w @ [DidCurrentStatus, DidSleep (suspend_timeout (tweak options)),
                                  DidCurrentStatus]\<rparr>)
      else (active, w\<lparr>n_status := Suc (n_status w), trace := trace w @ [DidCurrentStatus]\<rparr>))"
  by (simp add: suspend_check_def mpd_CurrentStatus_eq sleep_f_def did_def)

lemma suspend_check_frame:
  assumes "suspend_check options active w = (active2, w2)"
  shows "songs w2 = songs w \<and> player w2 = player w
         \<and> (\<exists>es. trace w2 = trace w @ es \<and> (\<forall>e \<in> set es. queue_handling e))"
  using assms by (auto simp: suspend_check_eq split: if_splits)

lemma enqueue_outcome_frame:
  "songs (enqueue_outcome X options w k) = after_picks X (songs w) k
   \<and> (\<exists>es. trace (enqueue_outcome X options w k) = trace w @ es
          \<and> (\<forall>e \<in> set es. queue_handling e))"
  by (auto simp: enqueue_outcome_def
        dest: queue_handling_pick_effects queue_handling_restart_effects)

lemma on_queue_or_player_frame:
  assumes "on_queue_or_player X options active w = Some r"
  shows "\<exists>es k. trace (flow_world r) = trace w @ es \<and> (\<forall>e \<in> set es. queue_handling e)
               \<and> songs (flow_world r) = after_picks X (songs w) k"
proof -
  obtain active2 w2 where sc: "suspend_check options active w = (active2, w2)"
    by (cases "suspend_check options active w")
  from suspend_check_frame [OF sc] obtain es where
    w2: "songs w2 = songs w" "trace w2 = trace w @ es" "\<forall>e \<in> set es. queue_handling e"
    by blast
  show ?thesis
  proof (cases active2)
    case False
    with assms sc have "r = Looping active2 w2" by (simp add: on_queue_or_player_def)
    with w2 show ?thesis by (intro exI [of _ es] exI [of _ 0]) simp
  next
    case True
    with assms sc obtain w3 where w3: "TryEnqueue X options w2 = Some w3"
      and r: "r = Looping active2 w3"
      by (auto simp: on_queue_or_player_def)
    from TryEnqueue_shape [OF w3] obtain k where "w3 = enqueue_outcome X options w2 k" ..
    with enqueue_outcome_frame [of X options w2 k] obtain es2 where
      "songs w3 = after_picks X (songs w2) k" "trace w3 = trace w2 @ es2"
      "\<forall>e \<in> set es2. queue_handling e"
      by auto
    with w2 r show ?thesis by (intro exI [of _ "es @ es2"] exI [of _ k]) auto
  qed
qed

lemma on_queue_or_player_returns:
  assumes "\<And>k. nth_pick X (songs w) k \<noteq> []"
  shows "\<exists>r. on_queue_or_player X options active w = Some r"
proof -
  obtain active2 w2 where sc: "suspend_check options active w = (active2, w2)"
    by (cases "suspend_check options active w")
  from suspend_check_frame [OF sc] have "songs w2 = songs w" by blast
  with assms have "\<And>k. nth_pick X (songs w2) k \<noteq> []" by simp
  from TryEnqueue_returns [of X w2 options, OF this] sc show ?thesis
    by (auto simp: on_queue_or_player_def)
qed

lemma Loop_body_exit:
  assumes "Has (idles w (n_idle w)) MPD_IDLE_DATABASE" and "exit_on_db_update (tweak options)"
  shows "Loop_body X options active w =
           Some (Exited (w\<lparr>n_idle := Suc (n_idle w),
                           trace := trace w @ [DidIdle idle_set,
                                               DidPrint Database_updated_exiting]\<rparr>))"
  using assms by (simp add: Loop_body_def mpd_Idle_eq did_def)

lemma PrintChainLength_eq:
  "PrintChainLength X w = w\<lparr>trace := trace w @ [DidPrint (chain_length_message X (songs w))]\<rparr>"
  by (simp add: PrintChainLength_def chain_length_message_def did_def)

lemma Loop_body_reload:
  assumes "Has (idles w (n_idle w)) MPD_IDLE_DATABASE" and "\<not> exit_on_db_update (tweak options)"
      and "file_in options = None"
  shows "Loop_body X options active w =
           Some (Looping active
                  (w\<lparr>songs := Load X (Clear X (songs w)), n_idle := Suc (n_idle w),
                     trace := trace w @ [DidIdle idle_set, DidClear, DidLoad,
                       DidPrint (chain_length_message X (Load X (Clear X (songs w))))]\<rparr>))"
  using assms
  by (simp add: Loop_body_def mpd_Idle_eq Reloader_def songs_Clear_def reloader_Load_def
        PrintChainLength_eq did_def)

lemma Loop_body_queue_or_player:
  assumes "\<not> (Has (idles w (n_idle w)) MPD_IDLE_DATABASE \<and> exit_on_db_update (tweak options))"
      and "\<not> (Has (idles w (n_idle w)) MPD_IDLE_DATABASE \<and> file_in options = None)"
  shows "Loop_body X options active w =
           (if Has (idles w (n_idle w)) MPD_IDLE_QUEUE \<or> Has (idles w (n_idle w)) MPD_IDLE_PLAYER
            then on_queue_or_player X options active
                   (w\<lparr>n_idle := Suc (n_idle w), trace := trace w @ [DidIdle idle_set]\<rparr>)
            else Some (Looping active
                   (w\<lparr>n_idle := Suc (n_idle w), trace := trace w @ [DidIdle idle_set]\<rparr>)))"
  using assms by (auto simp: Loop_body_def mpd_Idle_eq)

subsection \<open>Exit on a database update\<close>

lemma until_check_frame:
  "songs (snd (until_check test_d w)) = songs w
   \<and> trace (snd (until_check test_d w)) = trace w
   \<and> idles (snd (until_check test_d w)) = idles w
   \<and> n_idle (snd (until_check test_d w)) = n_idle w"
  by (simp add: until_check_def split: option.split)

text \<open>
  C6. In every pass of the loop whose event set contains \<^verbatim>\<open>MPD_IDLE_DATABASE\<close>,
  with \<^verbatim>\<open>exit_on_db_update\<close> set, the process exits right after \<^verbatim>\<open>Idle\<close> has
  returned and the exit message is written: the pass reads no status, sleeps, picks,
  clears, loads or adds nothing, and the run of the loop ends there, with the chain as
  it was. The pass is any pass of the loop: \<open>active\<close> and \<open>w\<close> are the flag and the
  world that the earlier passes have left.
\<close>

theorem Loop_exits_on_database_update:
  assumes "Has (idles w (n_idle w)) MPD_IDLE_DATABASE"
      and "exit_on_db_update (tweak options)"
  shows "Loop_body X options active w =
           Some (Exited (w\<lparr>n_idle := Suc (n_idle w),
                           trace := trace w @ [DidIdle idle_set,
                                               DidPrint Database_updated_exiting]\<rparr>))
         \<and> (fst (until_check test_d w) \<longrightarrow>
              (\<exists>w'. Loop_while X options test_d active w = Some (Exited w')
                  \<and> songs w' = songs w
                  \<and> trace w' = trace w @ [DidIdle idle_set, DidPrint Database_updated_exiting]))"
proof (intro conjI impI)
  show "Loop_body X options active w =
           Some (Exited (w\<lparr>n_idle := Suc (n_idle w),
                           trace := trace w @ [DidIdle idle_set,
                                               DidPrint Database_updated_exiting]\<rparr>))"
    using assms by (rule Loop_body_exit)
next
  assume go: "fst (until_check test_d w)"
  define w1 where "w1 = snd (until_check test_d w)"
  have frame: "songs w1 = songs w" "trace w1 = trace w" "idles w1 = idles w"
    "n_idle w1 = n_idle w"
    using until_check_frame [of test_d w] by (simp_all add: w1_def)
  then have "Has (idles w1 (n_idle w1)) MPD_IDLE_DATABASE" using assms(1) by simp
  from Loop_body_exit [OF this assms(2), of X active]
  have "Loop_while X options test_d active w =
          Some (Exited (w1\<lparr>n_idle := Suc (n_idle w1),
                           trace := trace w1 @ [DidIdle idle_set,
                                                DidPrint Database_updated_exiting]\<rparr>))"
    using go by (subst Loop_while.simps) (simp add: split_beta w1_def)
  then show "\<exists>w'. Loop_while X options test_d active w = Some (Exited w')
                  \<and> songs w' = songs w
                  \<and> trace w' = trace w @ [DidIdle idle_set, DidPrint Database_updated_exiting]"
    using frame by simp
qed

theorem Loop_exits_on_database_update_witness:
  "\<exists>w'. Loop_while (round_robin [])
           (default_options\<lparr>tweak := (tweak default_options)\<lparr>exit_on_db_update := True\<rparr>\<rparr>)
           production True
           (fresh_world ([[''a'']], 0) (player_always stopped_on_empty_queue)
              (idle_returns (MPD_IDLE_DATABASE OR MPD_IDLE_QUEUE)))
         = Some (Exited w')
       \<and> trace w' = [DidIdle idle_set, DidPrint Database_updated_exiting]"
proof -
  let ?options = "default_options\<lparr>tweak := (tweak default_options)\<lparr>exit_on_db_update := True\<rparr>\<rparr>"
  let ?w = "fresh_world ([[''a'']], 0 :: nat) (player_always stopped_on_empty_queue)
              (idle_returns (MPD_IDLE_DATABASE OR MPD_IDLE_QUEUE))"
  have "Has (idles ?w (n_idle ?w)) MPD_IDLE_DATABASE"
    by (simp add: fresh_world_def idle_returns_def Has_def MPD_IDLE_DATABASE_def
          MPD_IDLE_QUEUE_def)
  moreover have "exit_on_db_update (tweak ?options)" by simp
  moreover have "fst (until_check production ?w)"
    by (simp add: until_check_def production_def)
  ultimately show ?thesis
    using Loop_exits_on_database_update
            [where w = ?w and options = ?options and test_d = production
               and X = "round_robin []" and active = True]
    by (auto simp: trace_fresh_world)
qed

subsection \<open>A static file is never reloaded\<close>

lemma Loop_body_static_frame:
  assumes "file_in options = Some f" and "Loop_body X options active w = Some r"
  shows "\<exists>es k. trace (flow_world r) = trace w @ es
               \<and> DidClear \<notin> set es \<and> DidLoad \<notin> set es
               \<and> songs (flow_world r) = after_picks X (songs w) k"
proof (cases "Has (idles w (n_idle w)) MPD_IDLE_DATABASE \<and> exit_on_db_update (tweak options)")
  case True
  with assms(2) have "r = Exited (w\<lparr>n_idle := Suc (n_idle w),
      trace := trace w @ [DidIdle idle_set, DidPrint Database_updated_exiting]\<rparr>)"
    by (simp add: Loop_body_exit)
  then show ?thesis
    by (intro exI [of _ "[DidIdle idle_set, DidPrint Database_updated_exiting]"] exI [of _ 0])
       simp
next
  case False
  define w1 where "w1 = w\<lparr>n_idle := Suc (n_idle w), trace := trace w @ [DidIdle idle_set]\<rparr>"
  have static: "\<not> (Has (idles w (n_idle w)) MPD_IDLE_DATABASE \<and> file_in options = None)"
    using assms(1) by simp
  note body = Loop_body_queue_or_player [OF False static, of X active, folded w1_def]
  show ?thesis
  proof (cases "Has (idles w (n_idle w)) MPD_IDLE_QUEUE \<or> Has (idles w (n_idle w)) MPD_IDLE_PLAYER")
    case True
    with body assms(2) have "on_queue_or_player X options active w1 = Some r" by simp
    from on_queue_or_player_frame [OF this] obtain es k where
      es: "trace (flow_world r) = trace w1 @ es" "\<forall>e \<in> set es. queue_handling e"
        "songs (flow_world r) = after_picks X (songs w1) k"
      by blast
    from es(2) have "DidClear \<notin> set es" "DidLoad \<notin> set es" by auto
    with es(1,3) show ?thesis
      by (intro exI [of _ "DidIdle idle_set # es"] exI [of _ k]) (simp add: w1_def)
  next
    case False
    with body assms(2) have "r = Looping active w1" by simp
    then show ?thesis
      by (intro exI [of _ "[DidIdle idle_set]"] exI [of _ 0]) (simp add: w1_def)
  qed
qed

lemma Loop_body_static_returns:
  assumes "file_in options = Some f" and "\<And>k. nth_pick X (songs w) k \<noteq> []"
  shows "\<exists>r. Loop_body X options active w = Some r"
proof (cases "Has (idles w (n_idle w)) MPD_IDLE_DATABASE \<and> exit_on_db_update (tweak options)")
  case True
  then show ?thesis by (simp add: Loop_body_exit)
next
  case False
  define w1 where "w1 = w\<lparr>n_idle := Suc (n_idle w), trace := trace w @ [DidIdle idle_set]\<rparr>"
  have static: "\<not> (Has (idles w (n_idle w)) MPD_IDLE_DATABASE \<and> file_in options = None)"
    using assms(1) by simp
  have "\<And>k. nth_pick X (songs w1) k \<noteq> []" using assms(2) by (simp add: w1_def)
  from on_queue_or_player_returns [of X w1 options active, OF this]
  show ?thesis
    by (simp add: Loop_body_queue_or_player [OF False static, of X active, folded w1_def])
qed

text \<open>
  C7. With a file input configured, a pass of the loop whose event set contains
  \<^verbatim>\<open>MPD_IDLE_DATABASE\<close> calls neither \<^verbatim>\<open>Clear\<close> nor \<^verbatim>\<open>Load\<close>: whatever the
  pass does to the chain is a number of picks (none unless the event set also holds a
  queue or player event). So every quantity that \<^verbatim>\<open>Pick\<close> leaves alone, as the
  specification says of \<^verbatim>\<open>Len\<close> and \<^verbatim>\<open>LenURIs\<close>, is the same after the pass. The pass
  returns when the groups of the chain hold at least one identifier each.
\<close>

theorem static_file_is_not_reloaded:
  assumes "file_in options = Some f"
      and "Has (idles w (n_idle w)) MPD_IDLE_DATABASE"
  shows "(\<forall>r. Loop_body X options active w = Some r \<longrightarrow>
            (\<exists>es k. trace (flow_world r) = trace w @ es
                 \<and> DidClear \<notin> set es \<and> DidLoad \<notin> set es
                 \<and> songs (flow_world r) = after_picks X (songs w) k)
            \<and> ((\<forall>c. Len X (snd (Pick X c)) = Len X c) \<longrightarrow>
                   Len X (songs (flow_world r)) = Len X (songs w))
            \<and> ((\<forall>c. LenURIs X (snd (Pick X c)) = LenURIs X c) \<longrightarrow>
                   LenURIs X (songs (flow_world r)) = LenURIs X (songs w)))
         \<and> ((\<forall>k. nth_pick X (songs w) k \<noteq> []) \<longrightarrow>
                (\<exists>r. Loop_body X options active w = Some r))"
proof (intro conjI allI impI)
  fix r
  assume r: "Loop_body X options active w = Some r"
  from Loop_body_static_frame [OF assms(1) r]
  show "\<exists>es k. trace (flow_world r) = trace w @ es
               \<and> DidClear \<notin> set es \<and> DidLoad \<notin> set es
               \<and> songs (flow_world r) = after_picks X (songs w) k" .
  then obtain k where k: "songs (flow_world r) = after_picks X (songs w) k" by blast
  {
    assume "\<forall>c. Len X (snd (Pick X c)) = Len X c"
    then show "Len X (songs (flow_world r)) = Len X (songs w)"
      unfolding k by (intro after_picks_preserves) simp
  }
  {
    assume "\<forall>c. LenURIs X (snd (Pick X c)) = LenURIs X c"
    then show "LenURIs X (songs (flow_world r)) = LenURIs X (songs w)"
      unfolding k by (intro after_picks_preserves) simp
  }
next
  assume "\<forall>k. nth_pick X (songs w) k \<noteq> []"
  then show "\<exists>r. Loop_body X options active w = Some r"
    using Loop_body_static_returns [OF assms(1), of X w active] by simp
qed

text \<open>
  The database-change scenario of the specification with a static file: the event set
  holds a database and a queue event, the enqueue decision picks one group, and the pool
  still has its two groups and three identifiers.
\<close>

theorem static_file_is_not_reloaded_witness:
  "\<exists>r. Loop_body (round_robin [[''new'']]) (default_options\<lparr>file_in := Some 0\<rparr>) True
          (fresh_world ([[''a1'', ''a2''], [''b'']], 0) (player_always stopped_on_empty_queue)
             (idle_returns (MPD_IDLE_DATABASE OR MPD_IDLE_QUEUE)))
        = Some r
      \<and> Len (round_robin [[''new'']]) (songs (flow_world r)) = 2
      \<and> LenURIs (round_robin [[''new'']]) (songs (flow_world r)) = 3
      \<and> (\<exists>es. trace (flow_world r) = es \<and> DidClear \<notin> set es \<and> DidLoad \<notin> set es)"
proof -
  let ?X = "round_robin [[''new'']]"
  let ?options = "default_options\<lparr>file_in := Some 0\<rparr>"
  let ?w = "fresh_world ([[''a1'', ''a2''], [''b'']], 0 :: nat)
              (player_always stopped_on_empty_queue)
              (idle_returns (MPD_IDLE_DATABASE OR MPD_IDLE_QUEUE))"
  have "file_in ?options = Some 0" by simp
  moreover have "Has (idles ?w (n_idle ?w)) MPD_IDLE_DATABASE"
    by (simp add: fresh_world_def idle_returns_def Has_def MPD_IDLE_DATABASE_def
          MPD_IDLE_QUEUE_def)
  moreover have "\<forall>k. nth_pick ?X (songs ?w) k \<noteq> []"
    by (simp add: songs_fresh_world round_robin_picks_nonempty)
  moreover have "\<forall>c. Len ?X (snd (Pick ?X c)) = Len ?X c"
    by (simp add: round_robin_def split_beta)
  moreover have "\<forall>c. LenURIs ?X (snd (Pick ?X c)) = LenURIs ?X c"
    by (simp add: round_robin_def split_beta)
  moreover have "Len ?X (songs ?w) = 2" "LenURIs ?X (songs ?w) = 3"
    by (simp_all add: songs_fresh_world round_robin_def)
  ultimately show ?thesis
    using static_file_is_not_reloaded
            [where options = ?options and f = 0 and w = ?w and X = ?X and active = True]
    by (simp add: trace_fresh_world) metis
qed

subsection \<open>The order of handling within one pass\<close>

text \<open>
  C9. Within one pass over a returned event set the order is: first the check for
  exit on a database event, which ends the pass and the process before anything else;
  then the reload for a database event on a live catalog, after which the pass ends
  without looking at the queue or the player; and only when neither has handled the
  database event is the queue or player event handled, by the suspend check and the
  enqueue decision. So a pass that reads a status, sleeps, picks, adds, plays or pauses
  is one with a queue or player event in which the database event, if any, led neither
  to the exit nor to a reload.
\<close>

theorem Loop_body_order:
  assumes "idles w (n_idle w) = occurred"
  shows "(Has occurred MPD_IDLE_DATABASE \<and> exit_on_db_update (tweak options) \<longrightarrow>
            Loop_body X options active w =
              Some (Exited (w\<lparr>n_idle := Suc (n_idle w),
                              trace := trace w @ [DidIdle idle_set,
                                                  DidPrint Database_updated_exiting]\<rparr>)))
         \<and> (Has occurred MPD_IDLE_DATABASE \<and> \<not> exit_on_db_update (tweak options)
              \<and> file_in options = None \<longrightarrow>
            Loop_body X options active w =
              Some (Looping active
                     (w\<lparr>songs := Load X (Clear X (songs w)), n_idle := Suc (n_idle w),
                        trace := trace w @ [DidIdle idle_set, DidClear, DidLoad,
                          DidPrint (chain_length_message X (Load X (Clear X (songs w))))]\<rparr>)))
         \<and> (\<not> (Has occurred MPD_IDLE_DATABASE \<and> exit_on_db_update (tweak options))
              \<and> \<not> (Has occurred MPD_IDLE_DATABASE \<and> file_in options = None)
              \<and> (Has occurred MPD_IDLE_QUEUE \<or> Has occurred MPD_IDLE_PLAYER) \<longrightarrow>
            Loop_body X options active w = on_queue_or_player X options active (idled w))
         \<and> (\<forall>r es e. Loop_body X options active w = Some r
                \<and> trace (flow_world r) = trace w @ es \<and> e \<in> set es \<and> queue_handling e \<longrightarrow>
              \<not> (Has occurred MPD_IDLE_DATABASE \<and> exit_on_db_update (tweak options))
              \<and> \<not> (Has occurred MPD_IDLE_DATABASE \<and> file_in options = None)
              \<and> (Has occurred MPD_IDLE_QUEUE \<or> Has occurred MPD_IDLE_PLAYER))"
proof -
  have exit: "Loop_body X options active w =
              Some (Exited (w\<lparr>n_idle := Suc (n_idle w),
                              trace := trace w @ [DidIdle idle_set,
                                                  DidPrint Database_updated_exiting]\<rparr>))"
    if "Has occurred MPD_IDLE_DATABASE \<and> exit_on_db_update (tweak options)"
    using that assms by (simp add: Loop_body_exit)
  have reload: "Loop_body X options active w =
              Some (Looping active
                     (w\<lparr>songs := Load X (Clear X (songs w)), n_idle := Suc (n_idle w),
                        trace := trace w @ [DidIdle idle_set, DidClear, DidLoad,
                          DidPrint (chain_length_message X (Load X (Clear X (songs w))))]\<rparr>))"
    if "Has occurred MPD_IDLE_DATABASE \<and> \<not> exit_on_db_update (tweak options)
          \<and> file_in options = None"
    using that assms by (simp add: Loop_body_reload)
  have other: "Loop_body X options active w =
           (if Has occurred MPD_IDLE_QUEUE \<or> Has occurred MPD_IDLE_PLAYER
            then on_queue_or_player X options active (idled w)
            else Some (Looping active (idled w)))"
    if "\<not> (Has occurred MPD_IDLE_DATABASE \<and> exit_on_db_update (tweak options))"
       "\<not> (Has occurred MPD_IDLE_DATABASE \<and> file_in options = None)"
    using that assms Loop_body_queue_or_player [of w options X active]
    by (simp add: idled_def)
  have only: "\<not> (Has occurred MPD_IDLE_DATABASE \<and> exit_on_db_update (tweak options))
              \<and> \<not> (Has occurred MPD_IDLE_DATABASE \<and> file_in options = None)
              \<and> (Has occurred MPD_IDLE_QUEUE \<or> Has occurred MPD_IDLE_PLAYER)"
    if r: "Loop_body X options active w = Some r"
      and es: "trace (flow_world r) = trace w @ es" "e \<in> set es" "queue_handling e"
    for r es e
  proof (cases "Has occurred MPD_IDLE_DATABASE \<and> exit_on_db_update (tweak options)")
    case True
    from exit [OF True] r es(1) have "es = [DidIdle idle_set, DidPrint Database_updated_exiting]"
      by auto
    with es(2,3) show ?thesis by auto
  next
    case no_exit: False
    show ?thesis
    proof (cases "Has occurred MPD_IDLE_DATABASE \<and> file_in options = None")
      case True
      with no_exit reload r es(1)
      have "es = [DidIdle idle_set, DidClear, DidLoad,
                  DidPrint (chain_length_message X (Load X (Clear X (songs w))))]"
        by auto
      with es(2,3) show ?thesis by auto
    next
      case no_reload: False
      show ?thesis
      proof (cases "Has occurred MPD_IDLE_QUEUE \<or> Has occurred MPD_IDLE_PLAYER")
        case True
        with no_exit no_reload show ?thesis by simp
      next
        case False
        with other [OF no_exit no_reload] r es(1) have "es = [DidIdle idle_set]"
          by (auto simp: idled_def)
        with es(2,3) show ?thesis by auto
      qed
    qed
  qed
  have third: "\<not> (Has occurred MPD_IDLE_DATABASE \<and> exit_on_db_update (tweak options))
              \<and> \<not> (Has occurred MPD_IDLE_DATABASE \<and> file_in options = None)
              \<and> (Has occurred MPD_IDLE_QUEUE \<or> Has occurred MPD_IDLE_PLAYER) \<longrightarrow>
            Loop_body X options active w = on_queue_or_player X options active (idled w)"
    using other by simp
  have fourth: "\<forall>r es e. Loop_body X options active w = Some r
                \<and> trace (flow_world r) = trace w @ es \<and> e \<in> set es \<and> queue_handling e \<longrightarrow>
              \<not> (Has occurred MPD_IDLE_DATABASE \<and> exit_on_db_update (tweak options))
              \<and> \<not> (Has occurred MPD_IDLE_DATABASE \<and> file_in options = None)
              \<and> (Has occurred MPD_IDLE_QUEUE \<or> Has occurred MPD_IDLE_PLAYER)"
    using only by blast
  show ?thesis
  proof (intro conjI)
    show "Has occurred MPD_IDLE_DATABASE \<and> exit_on_db_update (tweak options) \<longrightarrow>
            Loop_body X options active w =
              Some (Exited (w\<lparr>n_idle := Suc (n_idle w),
                              trace := trace w @ [DidIdle idle_set,
                                                  DidPrint Database_updated_exiting]\<rparr>))"
      using exit by blast
    show "Has occurred MPD_IDLE_DATABASE \<and> \<not> exit_on_db_update (tweak options)
              \<and> file_in options = None \<longrightarrow>
            Loop_body X options active w =
              Some (Looping active
                     (w\<lparr>songs := Load X (Clear X (songs w)), n_idle := Suc (n_idle w),
                        trace := trace w @ [DidIdle idle_set, DidClear, DidLoad,
                          DidPrint (chain_length_message X (Load X (Clear X (songs w))))]\<rparr>))"
      using reload by blast
    show "\<not> (Has occurred MPD_IDLE_DATABASE \<and> exit_on_db_update (tweak options))
              \<and> \<not> (Has occurred MPD_IDLE_DATABASE \<and> file_in options = None)
              \<and> (Has occurred MPD_IDLE_QUEUE \<or> Has occurred MPD_IDLE_PLAYER) \<longrightarrow>
            Loop_body X options active w = on_queue_or_player X options active (idled w)"
      by (rule third)
    show "\<forall>r es e. Loop_body X options active w = Some r
                \<and> trace (flow_world r) = trace w @ es \<and> e \<in> set es \<and> queue_handling e \<longrightarrow>
              \<not> (Has occurred MPD_IDLE_DATABASE \<and> exit_on_db_update (tweak options))
              \<and> \<not> (Has occurred MPD_IDLE_DATABASE \<and> file_in options = None)
              \<and> (Has occurred MPD_IDLE_QUEUE \<or> Has occurred MPD_IDLE_PLAYER)"
      by (rule fourth)
  qed
qed

text \<open>
  A pass whose event set holds a database and a queue event. On a live catalog the chain
  is reloaded and the queue event is not looked at; on a static file the queue event is
  handled, here by one status read and three calls for the enqueue decision.
\<close>

theorem Loop_body_order_witness:
  "map_option (trace \<circ> flow_world)
     (Loop_body (round_robin [[''new'']]) default_options True
        (fresh_world ([[''a'']], 0) (player_always stopped_on_empty_queue)
           (idle_returns (MPD_IDLE_DATABASE OR MPD_IDLE_QUEUE))))
   = Some [DidIdle idle_set, DidClear, DidLoad,
           DidPrint (Picking_random_songs_out_of_a_pool_of 1)]
   \<and> map_option (trace \<circ> flow_world)
     (Loop_body (round_robin [[''new'']]) (default_options\<lparr>file_in := Some 0\<rparr>) True
        (fresh_world ([[''a'']], 0) (player_always stopped_on_empty_queue)
           (idle_returns (MPD_IDLE_DATABASE OR MPD_IDLE_QUEUE))))
   = Some [DidIdle idle_set, DidCurrentStatus, DidPick, DidAdd ''a'', DidPlayAt 0]"
proof -
  let ?X = "round_robin [[''new'']]"
  let ?w = "fresh_world ([[''a'']], 0 :: nat) (player_always stopped_on_empty_queue)
              (idle_returns (MPD_IDLE_DATABASE OR MPD_IDLE_QUEUE))"
  let ?occurred = "\<lparr>events = MPD_IDLE_DATABASE OR MPD_IDLE_QUEUE\<rparr>"
  have occurred: "idles ?w (n_idle ?w) = ?occurred"
    by (simp add: fresh_world_def idle_returns_def)
  have has: "Has ?occurred MPD_IDLE_DATABASE" "Has ?occurred MPD_IDLE_QUEUE"
    by (simp_all add: Has_def MPD_IDLE_DATABASE_def MPD_IDLE_QUEUE_def)
  have "Loop_body ?X default_options True ?w =
          Some (Looping True
                 (?w\<lparr>songs := Load ?X (Clear ?X (songs ?w)), n_idle := Suc (n_idle ?w),
                     trace := trace ?w @ [DidIdle idle_set, DidClear, DidLoad,
                       DidPrint (chain_length_message ?X (Load ?X (Clear ?X (songs ?w))))]\<rparr>))"
    using Loop_body_order [OF occurred, of default_options ?X True] has
    by (simp add: default_options_def)
  moreover
  have "Loop_body ?X (default_options\<lparr>file_in := Some 0\<rparr>) True ?w =
          on_queue_or_player ?X (default_options\<lparr>file_in := Some 0\<rparr>) True (idled ?w)"
    using Loop_body_order [OF occurred, of "default_options\<lparr>file_in := Some 0\<rparr>" ?X True] has
    by (simp add: default_options_def)
  ultimately show ?thesis
    by (simp add: fresh_world_def round_robin_def chain_length_message_def idled_def
          on_queue_or_player_def suspend_check_eq default_options_def
          TryEnqueue_def mpd_CurrentStatus_eq songs_Pick_eq mpd_Add_uris_eq
          player_always_def stopped_on_empty_queue_def should_add_def past_last_def
          queue_empty_def restart_player_eq restart_effects_def)
qed

subsection \<open>The suspend check\<close>

lemma Loop_body_handled:
  assumes "queue_event_handled options (idles w (n_idle w))"
  shows "Loop_body X options active w = on_queue_or_player X options active (idled w)"
proof -
  from assms have
    "\<not> (Has (idles w (n_idle w)) MPD_IDLE_DATABASE \<and> exit_on_db_update (tweak options))"
    "\<not> (Has (idles w (n_idle w)) MPD_IDLE_DATABASE \<and> file_in options = None)"
    "Has (idles w (n_idle w)) MPD_IDLE_QUEUE \<or> Has (idles w (n_idle w)) MPD_IDLE_PLAYER"
    by (auto simp: queue_event_handled_def split: if_splits)
  then show ?thesis
    using Loop_body_queue_or_player [of w options X active] by (simp add: idled_def)
qed

lemma Loop_body_not_handled:
  assumes "\<not> queue_event_handled options (idles w (n_idle w))"
      and "Loop_body X options active w = Some r"
  shows "still_active r \<longrightarrow> active"
proof (cases "Has (idles w (n_idle w)) MPD_IDLE_DATABASE \<and> exit_on_db_update (tweak options)")
  case True
  with assms(2) show ?thesis by (auto simp: Loop_body_exit)
next
  case no_exit: False
  show ?thesis
  proof (cases "Has (idles w (n_idle w)) MPD_IDLE_DATABASE \<and> file_in options = None")
    case True
    with no_exit assms(2) show ?thesis by (auto simp: Loop_body_reload)
  next
    case False
    with no_exit assms show ?thesis
      by (auto simp: Loop_body_queue_or_player queue_event_handled_def)
  qed
qed

text \<open>
  C1, as amended. Take a pass of the loop in which a queue or player event is handled
  (the database event, if any, led neither to the exit nor to a reload) with a nonzero
  \<^verbatim>\<open>suspend_timeout\<close>. If the queue length reads 0, the controller sleeps for the
  timeout and reads the queue length again: if the queue is still empty the controller is
  active from then on and runs the enqueue decision in this pass; if the queue is no
  longer empty the controller becomes inactive and the pass ends without enqueueing. If
  the queue length first reads non-zero, nothing sleeps and the flag stays as it was: an
  active controller runs the enqueue decision, an inactive one stays inactive and
  enqueues nothing. And an inactive controller is active after a pass only if that pass
  has handled a queue or player event with a nonzero timeout and has found the queue
  empty before and after the sleep.
\<close>

theorem suspend_check_sets_active:
  assumes "idles w (n_idle w) = occurred"
  shows "(suspend_timeout (tweak options) \<noteq> 0 \<and> queue_event_handled options occurred \<longrightarrow>
           (QueueLength (player w (n_status w)) = 0
              \<and> QueueLength (player w (Suc (n_status w))) = 0 \<longrightarrow>
            Loop_body X options active w =
              map_option (Looping True) (TryEnqueue X options (probed_twice options w)))
           \<and> (QueueLength (player w (n_status w)) = 0
              \<and> QueueLength (player w (Suc (n_status w))) \<noteq> 0 \<longrightarrow>
            Loop_body X options active w = Some (Looping False (probed_twice options w)))
           \<and> (QueueLength (player w (n_status w)) \<noteq> 0 \<longrightarrow>
            Loop_body X options active w =
              (if active then map_option (Looping True) (TryEnqueue X options (probed w))
               else Some (Looping False (probed w)))))
         \<and> (\<forall>r. Loop_body X options False w = Some r \<and> still_active r \<longrightarrow>
              suspend_timeout (tweak options) \<noteq> 0 \<and> queue_event_handled options occurred
              \<and> QueueLength (player w (n_status w)) = 0
              \<and> QueueLength (player w (Suc (n_status w))) = 0)"
proof (intro conjI impI allI)
  assume h: "suspend_timeout (tweak options) \<noteq> 0 \<and> queue_event_handled options occurred"
  then have body: "Loop_body X options active w =
                     on_queue_or_player X options active (idled w)"
    using assms by (simp add: Loop_body_handled)
  {
    assume "QueueLength (player w (n_status w)) = 0
              \<and> QueueLength (player w (Suc (n_status w))) = 0"
    then show "Loop_body X options active w =
              map_option (Looping True) (TryEnqueue X options (probed_twice options w))"
      using h body
      by (simp add: on_queue_or_player_def suspend_check_eq idled_def probed_twice_def)
  }
  {
    assume "QueueLength (player w (n_status w)) = 0
              \<and> QueueLength (player w (Suc (n_status w))) \<noteq> 0"
    then show "Loop_body X options active w = Some (Looping False (probed_twice options w))"
      using h body
      by (simp add: on_queue_or_player_def suspend_check_eq idled_def probed_twice_def)
  }
  {
    assume "QueueLength (player w (n_status w)) \<noteq> 0"
    then show "Loop_body X options active w =
              (if active then map_option (Looping True) (TryEnqueue X options (probed w))
               else Some (Looping False (probed w)))"
      using h body
      by (simp add: on_queue_or_player_def suspend_check_eq idled_def probed_def)
  }
next
  fix r
  assume r: "Loop_body X options False w = Some r \<and> still_active r"
  have handled: "queue_event_handled options occurred"
    using r Loop_body_not_handled [of options w X False r] assms by auto
  then have body: "on_queue_or_player X options False (idled w) = Some r"
    using r assms by (simp add: Loop_body_handled)
  have probe: "suspend_timeout (tweak options) \<noteq> 0
               \<and> QueueLength (player w (n_status w)) = 0
               \<and> QueueLength (player w (Suc (n_status w))) = 0"
    using body r
    by (auto simp: on_queue_or_player_def suspend_check_eq idled_def split: if_splits)
  from handled probe show "queue_event_handled options occurred" by simp
  from probe show "suspend_timeout (tweak options) \<noteq> 0" by simp
  from probe show "QueueLength (player w (n_status w)) = 0" by simp
  from probe show "QueueLength (player w (Suc (n_status w))) = 0" by simp
qed

text \<open>
  A timeout of 5 and a queue event on a queue that is empty before and after the sleep:
  the controller stays active and enqueues.
\<close>

theorem suspend_check_sets_active_witness:
  "map_option still_active
     (Loop_body (round_robin [])
        (default_options\<lparr>tweak := (tweak default_options)\<lparr>suspend_timeout := 5\<rparr>\<rparr>) True
        (fresh_world ([[''a'']], 0) (player_always stopped_on_empty_queue)
           (idle_returns MPD_IDLE_QUEUE)))
   = Some True"
proof -
  let ?options = "default_options\<lparr>tweak := (tweak default_options)\<lparr>suspend_timeout := 5\<rparr>\<rparr>"
  let ?w = "fresh_world ([[''a'']], 0 :: nat) (player_always stopped_on_empty_queue)
              (idle_returns MPD_IDLE_QUEUE)"
  let ?occurred = "\<lparr>events = MPD_IDLE_QUEUE\<rparr>"
  have "suspend_timeout (tweak ?options) \<noteq> 0" by simp
  moreover have "idles ?w (n_idle ?w) = ?occurred"
    by (simp add: fresh_world_def idle_returns_def)
  moreover have "queue_event_handled ?options ?occurred"
    by (simp add: queue_event_handled_def Has_def MPD_IDLE_DATABASE_def MPD_IDLE_QUEUE_def)
  moreover have "QueueLength (player ?w (n_status ?w)) = 0"
    "QueueLength (player ?w (Suc (n_status ?w))) = 0"
    by (simp_all add: fresh_world_def player_always_def stopped_on_empty_queue_def)
  ultimately have "Loop_body (round_robin []) ?options True ?w =
      map_option (Looping True) (TryEnqueue (round_robin []) ?options (probed_twice ?options ?w))"
    using suspend_check_sets_active
            [where options = ?options and w = ?w and occurred = ?occurred
               and X = "round_robin []" and active = True]
    by simp
  moreover have "\<And>k. nth_pick (round_robin []) (songs (probed_twice ?options ?w)) k \<noteq> []"
    by (simp add: probed_twice_def songs_fresh_world round_robin_picks_nonempty)
  from TryEnqueue_returns [of "round_robin []" "probed_twice ?options ?w" ?options, OF this]
  have "\<exists>w'. TryEnqueue (round_robin []) ?options (probed_twice ?options ?w) = Some w'"
    by blast
  ultimately show ?thesis by auto
qed

text \<open>
  C1 as stated fails in each of its three parts. With a timeout of 5 and a queue event:
  on a queue that is still empty after the sleep the controller is active and enqueues
  (it picks, adds and starts playback); on a queue that has become non-empty during the
  sleep an active controller becomes inactive; and a non-empty queue reading at a later
  event leaves an inactive controller inactive, with nothing enqueued.
\<close>

theorem suspend_check_counterexample:
  "map_option still_active
     (Loop_body (round_robin [])
        (default_options\<lparr>tweak := (tweak default_options)\<lparr>suspend_timeout := 5\<rparr>\<rparr>) True
        (fresh_world ([[''a'']], 0) (player_always stopped_on_empty_queue)
           (idle_returns MPD_IDLE_QUEUE)))
   = Some True
   \<and> map_option (trace \<circ> flow_world)
     (Loop_body (round_robin [])
        (default_options\<lparr>tweak := (tweak default_options)\<lparr>suspend_timeout := 5\<rparr>\<rparr>) True
        (fresh_world ([[''a'']], 0) (player_always stopped_on_empty_queue)
           (idle_returns MPD_IDLE_QUEUE)))
   = Some [DidIdle idle_set, DidCurrentStatus, DidSleep 5, DidCurrentStatus,
           DidCurrentStatus, DidPick, DidAdd ''a'', DidPlayAt 0]
   \<and> map_option still_active
     (Loop_body (round_robin [])
        (default_options\<lparr>tweak := (tweak default_options)\<lparr>suspend_timeout := 5\<rparr>\<rparr>) True
        (fresh_world ([[''a'']], 0)
           (player_changing 1 stopped_on_empty_queue (playing_at 0 1))
           (idle_returns MPD_IDLE_QUEUE)))
   = Some False
   \<and> map_option still_active
     (Loop_body (round_robin [])
        (default_options\<lparr>tweak := (tweak default_options)\<lparr>suspend_timeout := 5\<rparr>\<rparr>) False
        (fresh_world ([[''a'']], 0) (player_always (playing_at 0 1))
           (idle_returns MPD_IDLE_QUEUE)))
   = Some False
   \<and> map_option (trace \<circ> flow_world)
     (Loop_body (round_robin [])
        (default_options\<lparr>tweak := (tweak default_options)\<lparr>suspend_timeout := 5\<rparr>\<rparr>) False
        (fresh_world ([[''a'']], 0) (player_always (playing_at 0 1))
           (idle_returns MPD_IDLE_QUEUE)))
   = Some [DidIdle idle_set, DidCurrentStatus]"
  by (simp add: Loop_body_def mpd_Idle_eq fresh_world_def idle_returns_def Has_def
        MPD_IDLE_DATABASE_def MPD_IDLE_QUEUE_def MPD_IDLE_PLAYER_def default_options_def
        on_queue_or_player_def suspend_check_eq player_always_def player_changing_def
        stopped_on_empty_queue_def playing_at_def
        TryEnqueue_def mpd_CurrentStatus_eq songs_Pick_eq mpd_Add_uris_eq
        should_add_def past_last_def queue_empty_def restart_player_eq restart_effects_def
        round_robin_def)

subsection \<open>Startup\<close>

text \<open>
  C8. With \<^verbatim>\<open>play_on_startup\<close> set, \<^verbatim>\<open>Loop\<close> first runs \<^verbatim>\<open>TryFirst\<close>, which reads
  the status of the player: a player that is playing is left alone, nothing is added and
  nothing is started; otherwise one group is picked, its identifiers are appended, and
  playback is started at the queue length of the status read, the position right after
  the end of the prior queue. In both cases one pass of the enqueue decision follows,
  and then the event loop, with the controller active.
\<close>

theorem Loop_startup:
  assumes "play_on_startup (tweak options)"
      and "player w (n_status w) = status"
  shows "TryFirst X w =
           (if IsPlaying status
            then w\<lparr>n_status := Suc (n_status w), trace := trace w @ [DidCurrentStatus]\<rparr>
            else w\<lparr>songs := snd (Pick X (songs w)), n_status := Suc (n_status w),
                   trace := trace w @ DidCurrentStatus # DidPick
                            # map DidAdd (fst (Pick X (songs w)))
                            @ [DidPlayAt (QueueLength status)]\<rparr>)
         \<and> Loop X options test_d w =
             Option.bind (TryEnqueue X options (TryFirst X w)) (Loop_while X options test_d True)"
  using assms
  by (simp add: TryFirst_def Loop_def mpd_CurrentStatus_eq songs_Pick_eq mpd_Add_uris_eq
        mpd_PlayAt_def did_def)

text \<open>
  A stopped player with two songs in its queue, which plays the appended song at the
  second status read: \<^verbatim>\<open>TryFirst\<close> appends one group and starts playback at position
  2, the enqueue decision reads the status and adds nothing, and the test delegate ends
  the loop before its first pass.
\<close>

theorem Loop_startup_witness:
  "map_option (trace \<circ> flow_world)
     (Loop (round_robin []) default_options (run_times 0)
        (fresh_world ([[''a1'', ''a2'']], 0)
           (player_changing 1
              \<lparr>QueueLength = 2, Single = False, SongPosition = None, IsPlaying = False\<rparr>
              (playing_at 2 4))
           (idle_returns 0)))
   = Some [DidCurrentStatus, DidPick, DidAdd ''a1'', DidAdd ''a2'', DidPlayAt 2,
           DidCurrentStatus]"
proof -
  let ?stopped = "\<lparr>QueueLength = 2, Single = False, SongPosition = None, IsPlaying = False\<rparr>"
  let ?w = "fresh_world ([[''a1'', ''a2'']], 0 :: nat)
              (player_changing 1 ?stopped (playing_at 2 4)) (idle_returns 0)"
  have "play_on_startup (tweak default_options)" by (simp add: default_options_def)
  moreover have "player ?w (n_status ?w) = ?stopped"
    by (simp add: fresh_world_def player_changing_def)
  ultimately have
    "TryFirst (round_robin []) ?w =
       ?w\<lparr>songs := snd (Pick (round_robin []) (songs ?w)), n_status := Suc (n_status ?w),
           trace := trace ?w @ DidCurrentStatus # DidPick
                    # map DidAdd (fst (Pick (round_robin []) (songs ?w)))
                    @ [DidPlayAt (QueueLength ?stopped)]\<rparr>"
    "Loop (round_robin []) default_options (run_times 0) ?w =
       Option.bind (TryEnqueue (round_robin []) default_options (TryFirst (round_robin []) ?w))
         (Loop_while (round_robin []) default_options (run_times 0) True)"
    using Loop_startup [where options = default_options and w = ?w and status = ?stopped
                          and X = "round_robin []" and test_d = "run_times 0"]
    by simp_all
  then show ?thesis
    by (simp add: fresh_world_def round_robin_def player_changing_def playing_at_def
          TryEnqueue_def mpd_CurrentStatus_eq should_add_def past_last_def queue_empty_def
          queue_songs_remaining_def default_options_def)
       (subst Loop_while.simps, simp add: until_check_def run_times_def)
qed

end
